theory Spec2Isabelle
  imports Main "HOL-Library.Multiset"
begin

section \<open>Python strings and the built-ins the plugin relies on\<close>

text \<open>
  The multifill plugin (\<^verbatim>\<open>ntnu_inginious_multifill/__init__.py\<close>) parses two small
  languages, the subtask string and the score string, with \<^verbatim>\<open>str.split\<close>,
  \<^verbatim>\<open>str.strip\<close> and \<^verbatim>\<open>int\<close>, and samples subtasks with \<^verbatim>\<open>random.Random\<close>.

  What the model covers. A Python string is a \<^typ>\<open>string\<close>, one \<^typ>\<open>char\<close> per code
  point, which covers every string whose code points are below 256. Python's integers
  are \<^typ>\<open>int\<close>. An exception is a value of the type \<open>error\<close>, returned on the left
  of a sum. Two things the plugin calls are not part of it and are parameters of the
  model: the random generator (the record \<open>Random\<close> below) and the constructor of the
  base class \<^verbatim>\<open>Problem\<close>. The interpreter's limit on the digits of an integer literal is
  a parameter too (\<open>lim\<close>).
\<close>

text \<open>\<^verbatim>\<open>s.split(sep)\<close> for a one-character separator: never empty, keeps empty fields.\<close>

fun split_on :: "char \<Rightarrow> string \<Rightarrow> string list" where
  "split_on sep [] = [[]]"
| "split_on sep (c # cs) =
     (if c = sep then [] # split_on sep cs
      else (c # hd (split_on sep cs)) # tl (split_on sep cs))"

text \<open>\<^verbatim>\<open>sep.join(parts)\<close>.\<close>

fun join :: "string \<Rightarrow> string list \<Rightarrow> string" where
  "join sep [] = []"
| "join sep [p] = p"
| "join sep (p # q # ps) = p @ sep @ join sep (q # ps)"

text \<open>
  The white space \<^verbatim>\<open>str.strip()\<close> removes (\<^verbatim>\<open>str.isspace\<close>), below code point 256:
  9 to 13, 28 to 32, 133 and 160.
\<close>

definition strip_space :: "char \<Rightarrow> bool" where
  "strip_space c =
     (let n = (of_char c :: nat)
      in (9 \<le> n \<and> n \<le> 13) \<or> (28 \<le> n \<and> n \<le> 32) \<or> n = 133 \<or> n = 160)"

definition py_strip :: "string \<Rightarrow> string" where
  "py_strip s = rev (dropWhile strip_space (rev (dropWhile strip_space s)))"

text \<open>
  The white space \<^verbatim>\<open>int\<close> skips around a literal is smaller: the separators 28 to 31
  are not part of it.
\<close>

definition int_space :: "char \<Rightarrow> bool" where
  "int_space c =
     (let n = (of_char c :: nat)
      in (9 \<le> n \<and> n \<le> 13) \<or> n = 32 \<or> n = 133 \<or> n = 160)"

definition is_digit :: "char \<Rightarrow> bool" where
  "is_digit c = (let n = (of_char c :: nat) in 48 \<le> n \<and> n \<le> 57)"

definition digit_val :: "char \<Rightarrow> nat" where
  "digit_val c = of_char c - 48"

text \<open>
  The digits of a literal after its first digit: a single underscore is allowed between
  two digits.
\<close>

fun parse_digits :: "nat \<Rightarrow> string \<Rightarrow> nat option" where
  "parse_digits acc [] = Some acc"
| "parse_digits acc [c] = (if is_digit c then Some (10 * acc + digit_val c) else None)"
| "parse_digits acc (c # d # ds) =
     (if is_digit c then parse_digits (10 * acc + digit_val c) (d # ds)
      else if c = CHR ''_'' \<and> is_digit d then parse_digits (10 * acc + digit_val d) ds
      else None)"

definition parse_body :: "string \<Rightarrow> nat option" where
  "parse_body b =
     (case b of [] \<Rightarrow> None
      | c # cs \<Rightarrow> if is_digit c then parse_digits (digit_val c) cs else None)"

text \<open>
  \<^verbatim>\<open>int(s)\<close> in base 10: \<open>None\<close> is \<^verbatim>\<open>ValueError\<close>. White space is skipped on both
  sides, one sign may come first, and the interpreter refuses a literal of more than
  \<open>lim\<close> digits when \<open>lim\<close> is positive (\<^verbatim>\<open>sys.get_int_max_str_digits()\<close>, 4300 by
  default, 0 for no limit; literals of at most 640 digits are never refused).
\<close>

definition py_int :: "nat \<Rightarrow> string \<Rightarrow> int option" where
  "py_int lim s =
     (let t = rev (dropWhile int_space (rev (dropWhile int_space s)));
          neg = (case t of [] \<Rightarrow> False | c # cs \<Rightarrow> c = CHR ''-'');
          body = (case t of [] \<Rightarrow> []
                  | c # cs \<Rightarrow> if c = CHR ''-'' \<or> c = CHR ''+'' then cs else t);
          digits = length (filter is_digit body)
      in case parse_body body of
           None \<Rightarrow> None
         | Some n \<Rightarrow>
             if 640 < digits \<and> 0 < lim \<and> lim < digits then None
             else Some (if neg then - int n else int n))"

text \<open>\<^verbatim>\<open>str(n)\<close> for a natural number, as the f-string of the default score uses it.\<close>

definition digit_char :: "nat \<Rightarrow> char" where
  "digit_char d = ''0123456789'' ! d"

fun py_str :: "nat \<Rightarrow> string" where
  "py_str n =
     (if n < 10 then [digit_char n]
      else py_str (n div 10) @ [digit_char (n mod 10)])"

declare py_str.simps [simp del]

section \<open>Errors\<close>

text \<open>
  Every \<^verbatim>\<open>raise\<close> of the plugin is a \<^verbatim>\<open>ValueError\<close> told apart by its message; the model
  has one constructor per message. \<open>SampleError\<close> is the \<^verbatim>\<open>ValueError\<close> of
  \<^verbatim>\<open>Random.sample\<close> and \<open>AssertionFailed\<close> the \<^verbatim>\<open>assert\<close> at the end of sampling.
\<close>

datatype error =
    IllegalGroup      \<comment> \<open>Subtask string contains illegal group\<close>
  | NegativePull      \<comment> \<open>Subtask string contains negative pull\<close>
  | EmptyBag          \<comment> \<open>Subtask string contains empty bag\<close>
  | PullExceedsBag    \<comment> \<open>Subtask string has pull > bag size\<close>
  | WrongParts        \<comment> \<open>Expected 3 parts in score string\<close>
  | IllegalScore      \<comment> \<open>Score string contains illegal score\<close>
  | MinimumRange      \<comment> \<open>Minimum score is outside valid range\<close>
  | ExpectedRange     \<comment> \<open>Expected score is outside valid range\<close>
  | NegativeTotal     \<comment> \<open>Total score can not be negative\<close>
  | NoSubtasks        \<comment> \<open>Multifill problem does not have any subtasks\<close>
  | MissingText nat   \<comment> \<open>Subtask i is missing text\<close>
  | BagMismatch nat int \<comment> \<open>Problem has n subtasks, but the subtask string expects b\<close>
  | BaseError         \<comment> \<open>whatever \<^verbatim>\<open>Problem.__init__\<close> raises\<close>
  | KeyError          \<comment> \<open>\<^verbatim>\<open>content[key]\<close> for an absent key\<close>
  | SampleError       \<comment> \<open>Sample larger than population or is negative\<close>
  | AssertionFailed

section \<open>SubtaskString\<close>

record SubtaskString =
  string :: string
  total_pull :: int
  total_bag :: int
  groups :: "(int \<times> int) list list"

text \<open>
  The \<^verbatim>\<open>try\<close> block of the constructor: the two sides of a group with a slash, or the
  bare token twice. Unpacking anything but two parts raises \<^verbatim>\<open>ValueError\<close> too, which
  the same handler catches.
\<close>

definition parse_group :: "nat \<Rightarrow> string \<Rightarrow> (int \<times> int) option" where
  "parse_group lim grp =
     (if CHR ''/'' \<in> set grp then
        (case split_on (CHR ''/'') grp of
           [p, b] \<Rightarrow>
             (case py_int lim p of None \<Rightarrow> None
              | Some pull \<Rightarrow>
                  (case py_int lim b of None \<Rightarrow> None | Some bag \<Rightarrow> Some (pull, bag)))
         | _ \<Rightarrow> None)
      else
        (case py_int lim grp of None \<Rightarrow> None
         | Some pull \<Rightarrow>
             (case py_int lim grp of None \<Rightarrow> None | Some bag \<Rightarrow> Some (pull, bag))))"

text \<open>
  The inner loop, over the groups of one loose group. Its state is the object under
  construction and \<^verbatim>\<open>loose_group_result\<close>; the totals are updated before the checks,
  as in the source.
\<close>

fun init_groups ::
  "nat \<Rightarrow> string list \<Rightarrow> SubtaskString \<Rightarrow> (int \<times> int) list
   \<Rightarrow> error + (SubtaskString \<times> (int \<times> int) list)" where
  "init_groups lim [] self loose_group_result = Inr (self, loose_group_result)"
| "init_groups lim (grp # rest) self loose_group_result =
     (case parse_group lim grp of
        None \<Rightarrow> Inl IllegalGroup
      | Some (pull, bag) \<Rightarrow>
          (let loose_group_result' = loose_group_result @ [(pull, bag)];
               self' = self\<lparr>total_pull := total_pull self + pull,
                            total_bag := total_bag self + bag\<rparr>
           in if pull < 0 then Inl NegativePull
              else if bag < 1 then Inl EmptyBag
              else if pull > bag then Inl PullExceedsBag
              else init_groups lim rest self' loose_group_result'))"

text \<open>The outer loop, over the loose groups.\<close>

fun init_loose :: "nat \<Rightarrow> string list \<Rightarrow> SubtaskString \<Rightarrow> error + SubtaskString" where
  "init_loose lim [] self = Inr self"
| "init_loose lim (loose_group # rest) self =
     (case init_groups lim (split_on (CHR '','') loose_group) self [] of
        Inl e \<Rightarrow> Inl e
      | Inr (self', loose_group_result) \<Rightarrow>
          init_loose lim rest (self'\<lparr>groups := groups self' @ [loose_group_result]\<rparr>))"

definition SubtaskString_init :: "nat \<Rightarrow> string \<Rightarrow> error + SubtaskString" where
  "SubtaskString_init lim s =
     init_loose lim (split_on (CHR '';'') s)
       \<lparr>string = s, total_pull = 0, total_bag = 0, groups = []\<rparr>"

text \<open>\<^verbatim>\<open>SubtaskString.default_for_subtasks\<close>: one \<^verbatim>\<open>"1"\<close> per subtask, joined by semicolons.\<close>

definition SubtaskString_default_for_subtasks :: "nat \<Rightarrow> 'a list \<Rightarrow> error + SubtaskString" where
  "SubtaskString_default_for_subtasks lim subtasks =
     SubtaskString_init lim (join '';'' (replicate (length subtasks) ''1''))"

section \<open>Sampling\<close>

text \<open>
  The standard library's \<^verbatim>\<open>random.Random\<close> is not part of the plugin. It is taken as a
  parameter: a type \<open>'g\<close> of generator states with the three operations the sampler
  calls. \<open>rnd_seed\<close> is \<^verbatim>\<open>Random(str)\<close>; \<open>rnd_sample\<close> and \<open>rnd_shuffle\<close> return
  their result with the generator's next state (\<^verbatim>\<open>shuffle\<close> works in place in Python,
  on a list nothing else refers to). The operations are total functions: that a call
  into the library returns is taken for granted.
\<close>

record 'g Random =
  rnd_seed :: "string \<Rightarrow> 'g"
  rnd_sample :: "'g \<Rightarrow> int list \<Rightarrow> nat \<Rightarrow> int list \<times> 'g"
  rnd_shuffle :: "'g \<Rightarrow> int list \<Rightarrow> int list \<times> 'g"

text \<open>
  \<^verbatim>\<open>rand.sample(population, k)\<close> raises \<^verbatim>\<open>ValueError\<close> unless \<^verbatim>\<open>0 <= k <= n\<close>.
\<close>

definition rand_sample ::
  "'g Random \<Rightarrow> 'g \<Rightarrow> int list \<Rightarrow> int \<Rightarrow> error + (int list \<times> 'g)" where
  "rand_sample R rand population k =
     (if 0 \<le> k \<and> k \<le> int (length population)
      then Inr (rnd_sample R rand population (nat k))
      else Inl SampleError)"

text \<open>
  The library's documented behaviour, as hypotheses of the theorems that need it:
  \<^verbatim>\<open>sample\<close> returns \<open>k\<close> elements drawn from the population without replacement, and
  \<^verbatim>\<open>shuffle\<close> returns a rearrangement of its argument.
\<close>

definition sample_ok :: "'g Random \<Rightarrow> bool" where
  "sample_ok R =
     (\<forall>g population k. k \<le> length population \<longrightarrow>
        length (fst (rnd_sample R g population k)) = k \<and>
        mset (fst (rnd_sample R g population k)) \<subseteq># mset population)"

definition shuffle_ok :: "'g Random \<Rightarrow> bool" where
  "shuffle_ok R = (\<forall>g x. mset (fst (rnd_shuffle R g x)) = mset x)"

text \<open>
  The inner loop of \<^verbatim>\<open>sample_subtasks\<close>, over the groups of one loose group, with state
  \<^verbatim>\<open>(rand, bag_counter, shuffler)\<close>. \<^verbatim>\<open>range(bag_counter, bag_counter + bag)\<close> is the
  list of integers from \<open>bag_counter\<close> to \<open>bag_counter + bag - 1\<close>.
\<close>

fun sample_groups ::
  "'g Random \<Rightarrow> (int \<times> int) list \<Rightarrow> 'g \<times> int \<times> int list
   \<Rightarrow> error + ('g \<times> int \<times> int list)" where
  "sample_groups R [] st = Inr st"
| "sample_groups R ((pull, bag) # rest) (rand, bag_counter, shuffler) =
     (let this_bag = [bag_counter .. bag_counter + bag - 1];
          bag_counter' = bag_counter + bag
      in case rand_sample R rand this_bag pull of
           Inl e \<Rightarrow> Inl e
         | Inr (picked, rand') \<Rightarrow>
             sample_groups R rest (rand', bag_counter', shuffler @ picked))"

text \<open>The outer loop, with state \<^verbatim>\<open>(rand, bag_counter, result)\<close>.\<close>

fun sample_loose ::
  "'g Random \<Rightarrow> (int \<times> int) list list \<Rightarrow> 'g \<times> int \<times> int list
   \<Rightarrow> error + ('g \<times> int \<times> int list)" where
  "sample_loose R [] st = Inr st"
| "sample_loose R (loose_group # rest) (rand, bag_counter, result) =
     (case sample_groups R loose_group (rand, bag_counter, []) of
        Inl e \<Rightarrow> Inl e
      | Inr (rand', bag_counter', shuffler) \<Rightarrow>
          (let (shuffled, rand'') = rnd_shuffle R rand' shuffler
           in sample_loose R rest (rand'', bag_counter', result @ shuffled)))"

definition sample_subtasks ::
  "'g Random \<Rightarrow> SubtaskString \<Rightarrow> string \<Rightarrow> string \<Rightarrow> error + int list" where
  "sample_subtasks R self task_id seed =
     (let rand = rnd_seed R (task_id @ ''#'' @ seed)
      in case sample_loose R (groups self) (rand, 0, []) of
           Inl e \<Rightarrow> Inl e
         | Inr (rand', bag_counter, result) \<Rightarrow>
             if bag_counter = total_bag self then Inr result else Inl AssertionFailed)"

section \<open>Sampling inside a process\<close>

text \<open>
  The state a call shares with the rest of the process. A \<^verbatim>\<open>SubtaskString\<close> lives as long
  as its problem and is handed to every call; every \<^verbatim>\<open>Random\<close> instance, among them the
  one behind the module-level functions of \<^verbatim>\<open>random\<close>, holds a state of its own.
  \<open>spec_objs\<close> and \<open>rand_objs\<close> give these objects by their identity, \<open>next_obj\<close> is
  the first identity not in use yet, and \<open>entropy\<close> stands for what the operating
  system's randomness source hands out.
\<close>

record 'g process =
  spec_objs :: "nat \<Rightarrow> SubtaskString"
  rand_objs :: "nat \<Rightarrow> 'g"
  next_obj :: nat
  entropy :: string

text \<open>
  The library on this state. \<^verbatim>\<open>Random(x)\<close> makes a new instance: seeded from the string
  it is given, or from the randomness source when it is given none. \<^verbatim>\<open>rand.sample\<close> and
  \<^verbatim>\<open>rand.shuffle\<close> read and update the state of the instance \<open>rand\<close> in place; when
  \<^verbatim>\<open>sample\<close> raises, the instance is as it was.
\<close>

definition Random_new :: "'g Random \<Rightarrow> string option \<Rightarrow> 'g process \<Rightarrow> nat \<times> 'g process" where
  "Random_new R x p =
     (let g = rnd_seed R (case x of None \<Rightarrow> entropy p | Some a \<Rightarrow> a)
      in (next_obj p,
          p\<lparr>rand_objs := (rand_objs p)(next_obj p := g), next_obj := Suc (next_obj p)\<rparr>))"

definition Random_sample ::
  "'g Random \<Rightarrow> nat \<Rightarrow> int list \<Rightarrow> int \<Rightarrow> 'g process
   \<Rightarrow> (error + int list) \<times> 'g process" where
  "Random_sample R rand population k p =
     (case rand_sample R (rand_objs p rand) population k of
        Inl e \<Rightarrow> (Inl e, p)
      | Inr (picked, g') \<Rightarrow> (Inr picked, p\<lparr>rand_objs := (rand_objs p)(rand := g')\<rparr>))"

definition Random_shuffle ::
  "'g Random \<Rightarrow> nat \<Rightarrow> int list \<Rightarrow> 'g process \<Rightarrow> int list \<times> 'g process" where
  "Random_shuffle R rand x p =
     (let (shuffled, g') = rnd_shuffle R (rand_objs p rand) x
      in (shuffled, p\<lparr>rand_objs := (rand_objs p)(rand := g')\<rparr>))"

text \<open>
  \<^verbatim>\<open>sample_subtasks\<close> once more, on this state: \<open>self\<close> is the identity of the
  \<^verbatim>\<open>SubtaskString\<close>, whose attributes are read from the process, and \<open>rand\<close> the
  identity of the generator the call has made. An exception leaves the process as the
  statements before it have made it.
\<close>

fun sample_groups_in ::
  "'g Random \<Rightarrow> nat \<Rightarrow> (int \<times> int) list \<Rightarrow> int \<times> int list \<Rightarrow> 'g process
   \<Rightarrow> (error + int \<times> int list) \<times> 'g process" where
  "sample_groups_in R rand [] st p = (Inr st, p)"
| "sample_groups_in R rand ((pull, bag) # rest) (bag_counter, shuffler) p =
     (let this_bag = [bag_counter .. bag_counter + bag - 1];
          bag_counter' = bag_counter + bag
      in case Random_sample R rand this_bag pull p of
           (Inl e, p') \<Rightarrow> (Inl e, p')
         | (Inr picked, p') \<Rightarrow>
             sample_groups_in R rand rest (bag_counter', shuffler @ picked) p')"

fun sample_loose_in ::
  "'g Random \<Rightarrow> nat \<Rightarrow> (int \<times> int) list list \<Rightarrow> int \<times> int list \<Rightarrow> 'g process
   \<Rightarrow> (error + int \<times> int list) \<times> 'g process" where
  "sample_loose_in R rand [] st p = (Inr st, p)"
| "sample_loose_in R rand (loose_group # rest) (bag_counter, result) p =
     (case sample_groups_in R rand loose_group (bag_counter, []) p of
        (Inl e, p') \<Rightarrow> (Inl e, p')
      | (Inr (bag_counter', shuffler), p') \<Rightarrow>
          (let (shuffled, p'') = Random_shuffle R rand shuffler p'
           in sample_loose_in R rand rest (bag_counter', result @ shuffled) p''))"

definition sample_subtasks_in ::
  "'g Random \<Rightarrow> nat \<Rightarrow> string \<Rightarrow> string \<Rightarrow> 'g process
   \<Rightarrow> (error + int list) \<times> 'g process" where
  "sample_subtasks_in R self task_id seed p =
     (let (rand, p0) = Random_new R (Some (task_id @ ''#'' @ seed)) p
      in case sample_loose_in R rand (groups (spec_objs p0 self)) (0, []) p0 of
           (Inl e, p1) \<Rightarrow> (Inl e, p1)
         | (Inr (bag_counter, result), p1) \<Rightarrow>
             (if bag_counter = total_bag (spec_objs p1 self) then Inr result
              else Inl AssertionFailed, p1))"

section \<open>ScoreString\<close>

text \<open>
  The attributes \<^verbatim>\<open>string\<close>, \<^verbatim>\<open>_minimum\<close>, \<^verbatim>\<open>_expected\<close> and \<^verbatim>\<open>_total\<close>; the first
  is named \<open>score_text\<close> here, \<open>string\<close> being a field of \<open>SubtaskString\<close>.
\<close>

record ScoreString =
  score_text :: string
  minimum :: int
  expected :: int
  total :: int

definition ScoreString_init :: "nat \<Rightarrow> string \<Rightarrow> error + ScoreString" where
  "ScoreString_init lim s =
     (let parts = split_on (CHR ''/'') s
      in if length parts \<noteq> 3 then Inl WrongParts
         else
           (case py_int lim (parts ! 0) of None \<Rightarrow> Inl IllegalScore
            | Some mi \<Rightarrow>
           (case py_int lim (parts ! 1) of None \<Rightarrow> Inl IllegalScore
            | Some ex \<Rightarrow>
           (case py_int lim (parts ! 2) of None \<Rightarrow> Inl IllegalScore
            | Some to \<Rightarrow>
                if mi < 0 \<or> mi > to then Inl MinimumRange
                else if ex < 0 \<or> ex > to then Inl ExpectedRange
                else if to < 0 then Inl NegativeTotal
                else Inr \<lparr>score_text = s, minimum = mi, expected = ex, total = to\<rparr>))))"

definition ScoreString_default_for_subtasks :: "nat \<Rightarrow> 'a list \<Rightarrow> error + ScoreString" where
  "ScoreString_default_for_subtasks lim subtasks =
     ScoreString_init lim
       (''0/'' @ py_str (length subtasks) @ ''/'' @ py_str (length subtasks))"

section \<open>MultifillProblem\<close>

text \<open>
  The problem's \<^verbatim>\<open>content\<close> dictionary, reduced to the keys the constructor reads. A key
  that is absent is \<open>None\<close>; \<open>c_subtasks\<close> is also \<open>None\<close> when the value is not a list
  or tuple. Of a subtask only the presence of its \<^verbatim>\<open>"text"\<close> matters here. The
  problem object has the attributes \<^verbatim>\<open>_header\<close>, \<^verbatim>\<open>_subtasks\<close>, \<^verbatim>\<open>_subtask_string\<close>
  and \<^verbatim>\<open>_score_string\<close>.
\<close>

record subtask =
  subtask_text :: "string option"

record content =
  c_header :: "string option"
  c_subtasks :: "subtask list option"
  c_subtask_string :: "string option"
  c_score_string :: "string option"

record MultifillProblem =
  header :: string
  subtasks :: "subtask list"
  subtask_string :: SubtaskString
  score_string :: ScoreString

text \<open>\<^verbatim>\<open>d.get(key, default)\<close> and \<^verbatim>\<open>d[key]\<close>.\<close>

definition dict_get :: "'a option \<Rightarrow> 'a \<Rightarrow> 'a" where
  "dict_get v dflt = (case v of None \<Rightarrow> dflt | Some x \<Rightarrow> x)"

definition dict_index :: "'a option \<Rightarrow> error + 'a" where
  "dict_index v = (case v of None \<Rightarrow> Inl KeyError | Some x \<Rightarrow> Inr x)"

text \<open>The loop over \<^verbatim>\<open>enumerate(self._subtasks)\<close>.\<close>

fun check_texts :: "nat \<Rightarrow> subtask list \<Rightarrow> error option" where
  "check_texts index [] = None"
| "check_texts index (st # rest) =
     (if subtask_text st = None then Some (MissingText index)
      else check_texts (Suc index) rest)"

text \<open>
  The choice between the author's subtask string and the default one. The string given
  to the parser is the stored one, not the stripped one.
\<close>

definition choose_subtask_string ::
  "nat \<Rightarrow> content \<Rightarrow> subtask list \<Rightarrow> error + SubtaskString" where
  "choose_subtask_string lim c sts =
     (if py_strip (dict_get (c_subtask_string c) []) \<noteq> []
      then (case dict_index (c_subtask_string c) of
              Inl e \<Rightarrow> Inl e
            | Inr v \<Rightarrow> SubtaskString_init lim v)
      else SubtaskString_default_for_subtasks lim sts)"

definition choose_score_string ::
  "nat \<Rightarrow> content \<Rightarrow> subtask list \<Rightarrow> error + ScoreString" where
  "choose_score_string lim c sts =
     (if py_strip (dict_get (c_score_string c) []) \<noteq> []
      then (case dict_index (c_score_string c) of
              Inl e \<Rightarrow> Inl e
            | Inr v \<Rightarrow> ScoreString_init lim v)
      else ScoreString_default_for_subtasks lim sts)"

text \<open>
  \<^verbatim>\<open>MultifillProblem.__init__\<close>. The base class's constructor is outside the plugin; what
  it raises for a problem id and content, if anything, is the parameter \<open>base\<close>.
\<close>

definition MultifillProblem_init ::
  "(string \<Rightarrow> content \<Rightarrow> error option) \<Rightarrow> nat \<Rightarrow> string \<Rightarrow> content
   \<Rightarrow> error + MultifillProblem" where
  "MultifillProblem_init base lim problemid c =
     (case base problemid c of Some e \<Rightarrow> Inl e
      | None \<Rightarrow>
     (case c_subtasks c of None \<Rightarrow> Inl NoSubtasks
      | Some sts \<Rightarrow>
     (case check_texts 0 sts of Some e \<Rightarrow> Inl e
      | None \<Rightarrow>
     (case choose_subtask_string lim c sts of Inl e \<Rightarrow> Inl e
      | Inr ss \<Rightarrow>
          (let num_subtasks = length sts; tb = total_bag ss
           in if int num_subtasks \<noteq> tb then Inl (BagMismatch num_subtasks tb)
              else
                (case choose_score_string lim c sts of Inl e \<Rightarrow> Inl e
                 | Inr sc \<Rightarrow>
                     Inr \<lparr>header = dict_get (c_header c) [], subtasks = sts,
                          subtask_string = ss, score_string = sc\<rparr>))))))"

section \<open>A concrete generator\<close>

text \<open>
  An instance of the generator interface, used to run the sampler on concrete inputs: a
  linear congruential generator, with the selection loop of \<^verbatim>\<open>Random.sample\<close> (draw a
  position, move the last unselected item into the vacancy) and the exchange loop of
  \<^verbatim>\<open>Random.shuffle\<close>.
\<close>

definition lcg_seed :: "string \<Rightarrow> nat" where
  "lcg_seed s = foldl (\<lambda>h c. (h * 31 + of_char c) mod 2147483648) 7 s"

definition lcg_randbelow :: "nat \<Rightarrow> nat \<Rightarrow> nat \<times> nat" where
  "lcg_randbelow g n = (g mod n, (g * 1103515245 + 12345) mod 2147483648)"

fun lcg_sample :: "nat \<Rightarrow> int list \<Rightarrow> nat \<Rightarrow> int list \<times> nat" where
  "lcg_sample g pool 0 = ([], g)"
| "lcg_sample g pool (Suc k) =
     (let (j, g') = lcg_randbelow g (length pool);
          (xs, g'') = lcg_sample g' (butlast (pool[j := last pool])) k
      in (pool ! j # xs, g''))"

fun lcg_shuffle_loop :: "nat \<Rightarrow> nat \<Rightarrow> int list \<Rightarrow> int list \<times> nat" where
  "lcg_shuffle_loop g 0 x = (x, g)"
| "lcg_shuffle_loop g (Suc i) x =
     (let (j, g') = lcg_randbelow g (Suc i + 1)
      in lcg_shuffle_loop g' i (x[Suc i := x ! j, j := x ! Suc i]))"

definition lcg_shuffle :: "nat \<Rightarrow> int list \<Rightarrow> int list \<times> nat" where
  "lcg_shuffle g x = lcg_shuffle_loop g (length x - 1) x"

definition LCG :: "nat Random" where
  "LCG = \<lparr>rnd_seed = lcg_seed, rnd_sample = lcg_sample, rnd_shuffle = lcg_shuffle\<rparr>"

section \<open>The grammar as the specification words it\<close>

text \<open>
  A second reading of the subtask grammar, following the specification rather than the
  constructor: a group is \<open>INT\<close> or \<open>INT/INT\<close>, anything else is malformed; a well-formed
  group is then checked for a negative pull, an empty bag and a pull larger than the bag,
  in this order. A specification string is read segment by segment and group by group,
  and the first group that fails decides the error.
\<close>

definition check_group :: "int \<times> int \<Rightarrow> error + (int \<times> int)" where
  "check_group g =
     (if fst g < 0 then Inl NegativePull
      else if snd g < 1 then Inl EmptyBag
      else if fst g > snd g then Inl PullExceedsBag
      else Inr g)"

definition spec_group :: "nat \<Rightarrow> string \<Rightarrow> error + (int \<times> int)" where
  "spec_group lim tok =
     (case map (py_int lim) (split_on (CHR ''/'') tok) of
        [Some n] \<Rightarrow> check_group (n, n)
      | [Some p, Some b] \<Rightarrow> check_group (p, b)
      | _ \<Rightarrow> Inl IllegalGroup)"

fun collect :: "(error + 'a) list \<Rightarrow> error + 'a list" where
  "collect [] = Inr []"
| "collect (Inl e # rs) = Inl e"
| "collect (Inr x # rs) = (case collect rs of Inl e \<Rightarrow> Inl e | Inr xs \<Rightarrow> Inr (x # xs))"

definition spec_segment :: "nat \<Rightarrow> string \<Rightarrow> error + (int \<times> int) list" where
  "spec_segment lim seg = collect (map (spec_group lim) (split_on (CHR '','') seg))"

definition spec_parse :: "nat \<Rightarrow> string \<Rightarrow> error + (int \<times> int) list list" where
  "spec_parse lim s = collect (map (spec_segment lim) (split_on (CHR '';'') s))"

text \<open>All group tokens of a specification string, left to right.\<close>

definition spec_tokens :: "string \<Rightarrow> string list" where
  "spec_tokens s = concat (map (split_on (CHR '','')) (split_on (CHR '';'') s))"

text \<open>The invariant of a PickGroup: \<open>0 \<le> pull \<le> bag\<close> and \<open>1 \<le> bag\<close>.\<close>

definition group_ok :: "int \<times> int \<Rightarrow> bool" where
  "group_ok g = (0 \<le> fst g \<and> fst g \<le> snd g \<and> 1 \<le> snd g)"

definition sum_pull :: "(int \<times> int) list list \<Rightarrow> int" where
  "sum_pull gss = sum_list (map fst (concat gss))"

definition sum_bag :: "(int \<times> int) list list \<Rightarrow> int" where
  "sum_bag gss = sum_list (map snd (concat gss))"

section \<open>Facts about the built-ins\<close>

lemmas int_defs = py_int_def parse_body_def is_digit_def digit_val_def int_space_def Let_def

lemma split_on_not_Nil: "split_on sep s \<noteq> []"
  by (induction s) auto

lemma split_on_notin: "sep \<notin> set s \<Longrightarrow> split_on sep s = [s]"
  by (induction s) auto

lemma split_on_length: "length (split_on sep s) = Suc (length (filter (\<lambda>c. c = sep) s))"
  by (induction s) (auto simp: split_on_not_Nil)

lemma split_on_in: "sep \<in> set s \<Longrightarrow> 2 \<le> length (split_on sep s)"
  by (induction s) (auto simp: split_on_length)

lemma parse_group_spec:
  "spec_group lim tok =
     (case parse_group lim tok of None \<Rightarrow> Inl IllegalGroup | Some g \<Rightarrow> check_group g)"
proof (cases "CHR ''/'' \<in> set tok")
  case False
  then show ?thesis
    by (simp add: spec_group_def parse_group_def split_on_notin split: option.splits)
next
  case True
  then have "2 \<le> length (split_on (CHR ''/'') tok)" by (rule split_on_in)
  then obtain p b rest where "split_on (CHR ''/'') tok = p # b # rest"
    by (cases "split_on (CHR ''/'') tok"; cases "tl (split_on (CHR ''/'') tok)") auto
  with True show ?thesis
    by (cases rest) (auto simp: spec_group_def parse_group_def split: option.splits list.splits)
qed

section \<open>The constructor computes the grammar\<close>

lemma check_group_Inr: "check_group g = Inr g' \<longleftrightarrow> g' = g \<and> group_ok g"
  by (auto simp: check_group_def group_ok_def)

lemma init_groups_spec:
  "init_groups lim toks self lgr =
     (case collect (map (spec_group lim) toks) of
        Inl e \<Rightarrow> Inl e
      | Inr gs \<Rightarrow>
          Inr (self\<lparr>total_pull := total_pull self + sum_list (map fst gs),
                    total_bag := total_bag self + sum_list (map snd gs)\<rparr>,
               lgr @ gs))"
proof (induction toks arbitrary: self lgr)
  case Nil
  show ?case by simp
next
  case (Cons tok toks)
  show ?case
  proof (cases "parse_group lim tok")
    case None
    then show ?thesis by (simp add: parse_group_spec)
  next
    case (Some g)
    obtain pull bag where g: "g = (pull, bag)" by (cases g)
    show ?thesis
    proof (cases "check_group g")
      case (Inl e)
      with Some g show ?thesis
        by (auto simp: parse_group_spec check_group_def split: if_splits)
    next
      case (Inr g')
      then have ok: "group_ok g" and g': "g' = g" by (simp_all add: check_group_Inr)
      from ok g have rng: "\<not> pull < 0" "\<not> bag < 1" "\<not> pull > bag"
        by (auto simp: group_ok_def)
      show ?thesis
        using Some g Inr g' rng
        by (simp add: parse_group_spec Cons.IH Let_def split: sum.splits)
    qed
  qed
qed

lemma init_loose_spec:
  "init_loose lim segs self =
     (case collect (map (spec_segment lim) segs) of
        Inl e \<Rightarrow> Inl e
      | Inr gss \<Rightarrow>
          Inr (self\<lparr>total_pull := total_pull self + sum_pull gss,
                    total_bag := total_bag self + sum_bag gss,
                    groups := groups self @ gss\<rparr>))"
proof (induction segs arbitrary: self)
  case Nil
  show ?case by (simp add: sum_pull_def sum_bag_def)
next
  case (Cons seg segs)
  show ?case
    by (cases "spec_segment lim seg")
       (auto simp: init_groups_spec Cons.IH spec_segment_def sum_pull_def sum_bag_def
             split: sum.splits)
qed

lemma SubtaskString_init_spec:
  "SubtaskString_init lim s =
     (case spec_parse lim s of
        Inl e \<Rightarrow> Inl e
      | Inr gss \<Rightarrow>
          Inr \<lparr>string = s, total_pull = sum_pull gss, total_bag = sum_bag gss,
               groups = gss\<rparr>)"
  by (simp add: SubtaskString_init_def init_loose_spec spec_parse_def split: sum.splits)

lemma collect_append:
  "collect (xs @ ys) =
     (case collect xs of Inl e \<Rightarrow> Inl e
      | Inr a \<Rightarrow> (case collect ys of Inl e \<Rightarrow> Inl e | Inr b \<Rightarrow> Inr (a @ b)))"
proof (induction xs)
  case Nil
  show ?case by (simp split: sum.splits)
next
  case (Cons x xs)
  then show ?case by (cases x) (auto split: sum.splits)
qed

lemma collect_map_Inr: "collect (map Inr xs) = Inr xs"
  by (induction xs) auto

lemma collect_Inr: "collect rs = Inr xs \<longleftrightarrow> rs = map Inr xs"
proof
  show "collect rs = Inr xs \<Longrightarrow> rs = map Inr xs"
  proof (induction rs arbitrary: xs)
    case Nil
    then show ?case by simp
  next
    case (Cons r rs)
    then show ?case by (cases r) (auto split: sum.splits)
  qed
qed (simp add: collect_map_Inr)

lemma collect_Inl:
  "collect rs = Inl e \<longleftrightarrow> (\<exists>pre post. rs = map Inr pre @ Inl e # post)"
proof (induction rs)
  case Nil
  show ?case by simp
next
  case (Cons r rs)
  show ?case
  proof (cases r)
    case (Inl e')
    show ?thesis
    proof
      assume "collect (r # rs) = Inl e"
      with Inl have "r # rs = map Inr [] @ Inl e # rs" by simp
      then show "\<exists>pre post. r # rs = map Inr pre @ Inl e # post" by blast
    next
      assume "\<exists>pre post. r # rs = map Inr pre @ Inl e # post"
      then obtain pre post where eq: "r # rs = map Inr pre @ Inl e # post" by blast
      with Inl have "pre = []" by (cases pre) auto
      with eq Inl show "collect (r # rs) = Inl e" by simp
    qed
  next
    case (Inr x)
    show ?thesis
    proof
      assume "collect (r # rs) = Inl e"
      with Inr have "collect rs = Inl e" by (simp split: sum.splits)
      with Cons.IH obtain pre post where "rs = map Inr pre @ Inl e # post" by blast
      with Inr have "r # rs = map Inr (x # pre) @ Inl e # post" by simp
      then show "\<exists>pre post. r # rs = map Inr pre @ Inl e # post" by blast
    next
      assume "\<exists>pre post. r # rs = map Inr pre @ Inl e # post"
      then obtain pre post where eq: "r # rs = map Inr pre @ Inl e # post" by blast
      with Inr obtain pre' where "pre = x # pre'" "rs = map Inr pre' @ Inl e # post"
        by (cases pre) auto
      with Cons.IH have "collect rs = Inl e" by blast
      with Inr show "collect (r # rs) = Inl e" by simp
    qed
  qed
qed

lemma collect_nested:
  "collect (map f (concat segs)) =
     (case collect (map (\<lambda>seg. collect (map f seg)) segs) of
        Inl e \<Rightarrow> Inl e | Inr gss \<Rightarrow> Inr (concat gss))"
proof (induction segs)
  case Nil
  show ?case by simp
next
  case (Cons seg segs)
  show ?case
    by (cases "collect (map f seg)") (auto simp: collect_append Cons.IH split: sum.splits)
qed

lemma spec_parse_tokens:
  "collect (map (spec_group lim) (spec_tokens s)) =
     (case spec_parse lim s of Inl e \<Rightarrow> Inl e | Inr gss \<Rightarrow> Inr (concat gss))"
  unfolding spec_tokens_def spec_parse_def
  by (simp add: collect_nested spec_segment_def [abs_def] comp_def)

lemma init_Inl_tokens:
  "SubtaskString_init lim s = Inl e \<longleftrightarrow>
     collect (map (spec_group lim) (spec_tokens s)) = Inl e"
  by (simp add: SubtaskString_init_spec spec_parse_tokens split: sum.splits)

lemma init_Inr_tokens:
  "(\<exists>self. SubtaskString_init lim s = Inr self) \<longleftrightarrow>
     (\<exists>gs. collect (map (spec_group lim) (spec_tokens s)) = Inr gs)"
  by (simp add: SubtaskString_init_spec spec_parse_tokens split: sum.splits)

lemma map_eq_map_Inr:
  "(\<exists>gs. map f toks = map Inr gs) \<longleftrightarrow> (\<forall>t\<in>set toks. \<exists>g. f t = Inr g)"
proof (induction toks)
  case Nil
  show ?case by simp
next
  case (Cons t toks)
  show ?case
  proof
    assume "\<exists>gs. map f (t # toks) = map Inr gs"
    then obtain gs where gs: "map f (t # toks) = map Inr gs" by blast
    then obtain g gs' where "gs = g # gs'" by (cases gs) auto
    with gs have "f t = Inr g" "map f toks = map Inr gs'" by auto
    with Cons.IH show "\<forall>t\<in>set (t # toks). \<exists>g. f t = Inr g" by auto
  next
    assume a: "\<forall>t\<in>set (t # toks). \<exists>g. f t = Inr g"
    then obtain g where g: "f t = Inr g" by auto
    from a Cons.IH obtain gs where "map f toks = map Inr gs" by auto
    with g have "map f (t # toks) = map Inr (g # gs)" by simp
    then show "\<exists>gs. map f (t # toks) = map Inr gs" by blast
  qed
qed

lemma SubtaskString_init_succeeds_iff:
  "(\<exists>self. SubtaskString_init lim s = Inr self) \<longleftrightarrow>
     (\<forall>tok\<in>set (spec_tokens s). \<exists>g. spec_group lim tok = Inr g)"
  by (simp add: init_Inr_tokens collect_Inr map_eq_map_Inr)

lemma SubtaskString_init_fails_iff:
  "SubtaskString_init lim s = Inl e \<longleftrightarrow>
     (\<exists>pre tok post. spec_tokens s = pre @ tok # post \<and>
        (\<forall>t\<in>set pre. \<exists>g. spec_group lim t = Inr g) \<and> spec_group lim tok = Inl e)"
proof
  assume "SubtaskString_init lim s = Inl e"
  then obtain gs post' where eq: "map (spec_group lim) (spec_tokens s) = map Inr gs @ Inl e # post'"
    by (auto simp: init_Inl_tokens collect_Inl)
  define n where "n = length gs"
  have len: "n < length (spec_tokens s)"
    using arg_cong [OF eq, of length] by (simp add: n_def)
  have pre: "map (spec_group lim) (take n (spec_tokens s)) = map Inr gs"
    using arg_cong [OF eq, of "take n"] by (simp add: n_def take_map)
  have at: "spec_group lim (spec_tokens s ! n) = Inl e"
    using arg_cong [OF eq, of "\<lambda>l. l ! n"] len by (simp add: n_def nth_append)
  have "spec_tokens s = take n (spec_tokens s) @ spec_tokens s ! n # drop (Suc n) (spec_tokens s)"
    using len by (simp add: id_take_nth_drop)
  moreover have "\<forall>t\<in>set (take n (spec_tokens s)). \<exists>g. spec_group lim t = Inr g"
    using pre map_eq_map_Inr [of "spec_group lim" "take n (spec_tokens s)"] by blast
  ultimately show "\<exists>pre tok post. spec_tokens s = pre @ tok # post \<and>
        (\<forall>t\<in>set pre. \<exists>g. spec_group lim t = Inr g) \<and> spec_group lim tok = Inl e"
    using at by blast
next
  assume "\<exists>pre tok post. spec_tokens s = pre @ tok # post \<and>
        (\<forall>t\<in>set pre. \<exists>g. spec_group lim t = Inr g) \<and> spec_group lim tok = Inl e"
  then obtain pre tok post where
    eq: "spec_tokens s = pre @ tok # post" and
    ok: "\<forall>t\<in>set pre. \<exists>g. spec_group lim t = Inr g" and
    bad: "spec_group lim tok = Inl e" by blast
  from ok obtain gs where "map (spec_group lim) pre = map Inr gs"
    using map_eq_map_Inr [of "spec_group lim" pre] by blast
  with eq bad have "map (spec_group lim) (spec_tokens s) =
      map Inr gs @ Inl e # map (spec_group lim) post" by simp
  then show "SubtaskString_init lim s = Inl e"
    unfolding init_Inl_tokens collect_Inl by blast
qed

lemma spec_group_ok: "spec_group lim tok = Inr g \<Longrightarrow> group_ok g"
  by (auto simp: spec_group_def check_group_Inr split: list.splits option.splits)

lemma spec_segment_ok: "spec_segment lim seg = Inr gs \<Longrightarrow> \<forall>g\<in>set gs. group_ok g"
proof
  fix g
  assume a: "spec_segment lim seg = Inr gs" and g: "g \<in> set gs"
  from a have "map (spec_group lim) (split_on (CHR '','') seg) = map Inr gs"
    by (simp add: spec_segment_def collect_Inr)
  then have "Inr g \<in> spec_group lim ` set (split_on (CHR '','') seg)"
    using g by (metis image_eqI list.set_map)
  then show "group_ok g" by (auto dest: spec_group_ok [OF sym])
qed

lemma spec_parse_ok:
  assumes "spec_parse lim s = Inr gss"
  shows "\<forall>gs\<in>set gss. \<forall>g\<in>set gs. group_ok g"
proof
  fix gs
  assume gs: "gs \<in> set gss"
  from assms have "map (spec_segment lim) (split_on (CHR '';'') s) = map Inr gss"
    by (simp add: spec_parse_def collect_Inr)
  then have "Inr gs \<in> spec_segment lim ` set (split_on (CHR '';'') s)"
    using gs by (metis image_eqI list.set_map)
  then show "\<forall>g\<in>set gs. group_ok g" by (auto dest: spec_segment_ok [OF sym])
qed

lemma init_Inr_fields:
  assumes "SubtaskString_init lim s = Inr self"
  shows "string self = s" and "total_pull self = sum_pull (groups self)"
    and "total_bag self = sum_bag (groups self)"
    and "\<forall>gs\<in>set (groups self). \<forall>g\<in>set gs. group_ok g"
    and "spec_parse lim s = Inr (groups self)"
proof -
  from assms obtain gss where p: "spec_parse lim s = Inr gss"
    and self: "self = \<lparr>string = s, total_pull = sum_pull gss, total_bag = sum_bag gss,
               groups = gss\<rparr>"
    by (auto simp: SubtaskString_init_spec split: sum.splits)
  from self show "string self = s" "total_pull self = sum_pull (groups self)"
    "total_bag self = sum_bag (groups self)" by simp_all
  from p self show "spec_parse lim s = Inr (groups self)" by simp
  from spec_parse_ok [OF p] self show "\<forall>gs\<in>set (groups self). \<forall>g\<in>set gs. group_ok g" by simp
qed

section \<open>The sampling loops\<close>

lemma upto_append: "a \<le> b \<Longrightarrow> b \<le> c \<Longrightarrow> [a..b - 1] @ [b..c - 1] = [a..c - 1]"
proof (cases "b = c")
  case True
  assume "a \<le> b" "b \<le> c"
  with True show ?thesis by simp
next
  case False
  assume "a \<le> b" "b \<le> c"
  with False have "a \<le> b" "b \<le> c - 1" by auto
  then show ?thesis by (simp add: upto_split1 [of a b "c - 1"])
qed

lemma sum_bag_nonneg: "\<forall>g\<in>set gs. group_ok g \<Longrightarrow> 0 \<le> sum_list (map snd gs)"
  by (induction gs) (auto simp: group_ok_def)

lemma sample_groups_ok:
  assumes "\<forall>g\<in>set gs. group_ok g"
  shows "\<exists>rand' picked.
           sample_groups R gs (rand, bc, sh) =
             Inr (rand', bc + sum_list (map snd gs), sh @ picked) \<and>
           (sample_ok R \<longrightarrow>
              int (length picked) = sum_list (map fst gs) \<and>
              mset picked \<subseteq># mset [bc .. bc + sum_list (map snd gs) - 1])"
  using assms
proof (induction gs arbitrary: rand bc sh)
  case Nil
  show ?case by simp
next
  case (Cons g gs)
  obtain pull bag where g: "g = (pull, bag)" by (cases g)
  from Cons.prems g have rng: "0 \<le> pull" "pull \<le> bag" "1 \<le> bag"
    by (auto simp: group_ok_def)
  from Cons.prems have rest: "\<forall>g\<in>set gs. group_ok g" by simp
  define this_bag where "this_bag = [bc .. bc + bag - 1]"
  have len: "int (length this_bag) = bag" using rng by (simp add: this_bag_def)
  define r where "r = rnd_sample R rand this_bag (nat pull)"
  have smp: "rand_sample R rand this_bag pull = Inr (fst r, snd r)"
    using rng len by (simp add: rand_sample_def r_def)
  from Cons.IH [OF rest, of "snd r" "bc + bag" "sh @ fst r"]
  obtain rand' picked where
    run: "sample_groups R gs (snd r, bc + bag, sh @ fst r) =
            Inr (rand', bc + bag + sum_list (map snd gs), (sh @ fst r) @ picked)" and
    ok: "sample_ok R \<longrightarrow> int (length picked) = sum_list (map fst gs) \<and>
           mset picked \<subseteq># mset [bc + bag .. bc + bag + sum_list (map snd gs) - 1]"
    by blast
  have eq: "sample_groups R (g # gs) (rand, bc, sh) =
      Inr (rand', bc + sum_list (map snd (g # gs)), sh @ (fst r @ picked))"
    using run smp by (simp add: g this_bag_def [symmetric] add.assoc split_beta)
  have "int (length (fst r @ picked)) = sum_list (map fst (g # gs)) \<and>
        mset (fst r @ picked) \<subseteq># mset [bc .. bc + sum_list (map snd (g # gs)) - 1]"
    if R: "sample_ok R"
  proof -
    have k: "nat pull \<le> length this_bag" using rng len by linarith
    from R k have l1: "length (fst r) = nat pull" and m1: "mset (fst r) \<subseteq># mset this_bag"
      unfolding sample_ok_def r_def by blast+
    from ok R have l2: "int (length picked) = sum_list (map fst gs)"
      and m2: "mset picked \<subseteq># mset [bc + bag .. bc + bag + sum_list (map snd gs) - 1]"
      by blast+
    have nn: "0 \<le> sum_list (map snd gs)" using rest by (rule sum_bag_nonneg)
    have split: "[bc .. bc + bag - 1] @ [bc + bag .. bc + bag + sum_list (map snd gs) - 1]
        = [bc .. bc + bag + sum_list (map snd gs) - 1]"
      using rng nn by (intro upto_append) auto
    have "mset (fst r @ picked) \<subseteq>#
        mset ([bc .. bc + bag - 1] @ [bc + bag .. bc + bag + sum_list (map snd gs) - 1])"
      using m1 m2 by (simp add: this_bag_def subset_mset.add_mono)
    with split l1 l2 rng show ?thesis by (simp add: g add.assoc)
  qed
  with eq show ?case by blast
qed

lemma sum_bag_Cons: "sum_bag (gs # gss) = sum_list (map snd gs) + sum_bag gss"
  by (simp add: sum_bag_def)

lemma sum_pull_Cons: "sum_pull (gs # gss) = sum_list (map fst gs) + sum_pull gss"
  by (simp add: sum_pull_def)

lemma sum_bag_all_nonneg: "\<forall>gs\<in>set gss. \<forall>g\<in>set gs. group_ok g \<Longrightarrow> 0 \<le> sum_bag gss"
  by (induction gss) (auto simp: sum_bag_Cons sum_bag_def dest: sum_bag_nonneg)

lemma sample_loose_ok:
  assumes "\<forall>gs\<in>set gss. \<forall>g\<in>set gs. group_ok g"
  shows "\<exists>rand' new.
           sample_loose R gss (rand, bc, res) = Inr (rand', bc + sum_bag gss, res @ new) \<and>
           (sample_ok R \<and> shuffle_ok R \<longrightarrow>
              int (length new) = sum_pull gss \<and>
              mset new \<subseteq># mset [bc .. bc + sum_bag gss - 1])"
  using assms
proof (induction gss arbitrary: rand bc res)
  case Nil
  show ?case by (simp add: sum_bag_def sum_pull_def)
next
  case (Cons gs gss)
  from Cons.prems have here: "\<forall>g\<in>set gs. group_ok g"
    and rest: "\<forall>gs\<in>set gss. \<forall>g\<in>set gs. group_ok g" by simp_all
  define b where "b = sum_list (map snd gs)"
  from sample_groups_ok [OF here, of R rand bc "[]"]
  obtain rand1 shuffler where
    inner: "sample_groups R gs (rand, bc, []) = Inr (rand1, bc + b, shuffler)" and
    ok1: "sample_ok R \<longrightarrow> int (length shuffler) = sum_list (map fst gs) \<and>
           mset shuffler \<subseteq># mset [bc .. bc + b - 1]"
    unfolding b_def by auto
  define sh where "sh = rnd_shuffle R rand1 shuffler"
  from Cons.IH [OF rest, of "snd sh" "bc + b" "res @ fst sh"]
  obtain rand' new where
    run: "sample_loose R gss (snd sh, bc + b, res @ fst sh) =
            Inr (rand', bc + b + sum_bag gss, (res @ fst sh) @ new)" and
    ok2: "sample_ok R \<and> shuffle_ok R \<longrightarrow> int (length new) = sum_pull gss \<and>
           mset new \<subseteq># mset [bc + b .. bc + b + sum_bag gss - 1]"
    by blast
  have eq: "sample_loose R (gs # gss) (rand, bc, res) =
      Inr (rand', bc + sum_bag (gs # gss), res @ (fst sh @ new))"
    using inner run by (simp add: sh_def [symmetric] split_beta sum_bag_Cons b_def add.assoc)
  have "int (length (fst sh @ new)) = sum_pull (gs # gss) \<and>
        mset (fst sh @ new) \<subseteq># mset [bc .. bc + sum_bag (gs # gss) - 1]"
    if R: "sample_ok R \<and> shuffle_ok R"
  proof -
    from R have perm: "mset (fst sh) = mset shuffler"
      unfolding shuffle_ok_def sh_def by blast
    then have lsh: "length (fst sh) = length shuffler" by (rule mset_eq_length)
    from ok1 R have l1: "int (length shuffler) = sum_list (map fst gs)"
      and m1: "mset shuffler \<subseteq># mset [bc .. bc + b - 1]" by blast+
    from ok2 R have l2: "int (length new) = sum_pull gss"
      and m2: "mset new \<subseteq># mset [bc + b .. bc + b + sum_bag gss - 1]" by blast+
    have nn1: "0 \<le> b" unfolding b_def using here by (rule sum_bag_nonneg)
    have nn2: "0 \<le> sum_bag gss" using rest by (rule sum_bag_all_nonneg)
    have split: "[bc .. bc + b - 1] @ [bc + b .. bc + b + sum_bag gss - 1]
        = [bc .. bc + b + sum_bag gss - 1]"
      using nn1 nn2 by (intro upto_append) auto
    have "mset (fst sh @ new) \<subseteq>#
        mset ([bc .. bc + b - 1] @ [bc + b .. bc + b + sum_bag gss - 1])"
      using m1 m2 perm by (simp add: subset_mset.add_mono)
    with split l1 l2 lsh show ?thesis
      by (simp add: sum_bag_Cons sum_pull_Cons b_def add.assoc)
  qed
  with eq show ?case by blast
qed

lemma distinct_sub_mset: "mset xs \<subseteq># mset ys \<Longrightarrow> distinct ys \<Longrightarrow> distinct xs"
proof -
  assume sub: "mset xs \<subseteq># mset ys" and d: "distinct ys"
  have "count (mset xs) a \<le> 1" for a
  proof -
    have "count (mset xs) a \<le> count (mset ys) a" using sub by (rule mset_subset_eq_count)
    also have "\<dots> \<le> 1" using d by (simp add: distinct_count_atmost_1)
    finally show ?thesis .
  qed
  then show "distinct xs" unfolding distinct_count_atmost_1
    by (metis count_greater_zero_iff le_antisym less_one not_le set_mset_mset linorder_not_less nat_less_le)
qed

lemma sample_subtasks_valid:
  assumes init: "SubtaskString_init lim s = Inr self"
  shows "\<exists>rand' result.
           sample_loose R (groups self) (rnd_seed R (task_id @ ''#'' @ seed), 0, []) =
             Inr (rand', total_bag self, result) \<and>
           sample_subtasks R self task_id seed = Inr result \<and>
           (sample_ok R \<and> shuffle_ok R \<longrightarrow>
              int (length result) = total_pull self \<and> distinct result \<and>
              (\<forall>i\<in>set result. 0 \<le> i \<and> i < total_bag self))"
proof -
  note f = init_Inr_fields [OF init]
  from sample_loose_ok [OF f(4), of R "rnd_seed R (task_id @ ''#'' @ seed)" 0 "[]"]
  obtain rand' result where
    run: "sample_loose R (groups self) (rnd_seed R (task_id @ ''#'' @ seed), 0, []) =
            Inr (rand', total_bag self, result)" and
    ok: "sample_ok R \<and> shuffle_ok R \<longrightarrow> int (length result) = total_pull self \<and>
           mset result \<subseteq># mset [0 .. total_bag self - 1]"
    by (auto simp: f(2,3))
  from run have res: "sample_subtasks R self task_id seed = Inr result"
    by (simp add: sample_subtasks_def)
  have "distinct result \<and> (\<forall>i\<in>set result. 0 \<le> i \<and> i < total_bag self)"
    if "mset result \<subseteq># mset [0 .. total_bag self - 1]"
  proof -
    from that have "distinct result" by (rule distinct_sub_mset) simp
    moreover from that have "set result \<subseteq> set [0 .. total_bag self - 1]"
      by (metis set_mset_mono set_mset_mset)
    ultimately show ?thesis by auto
  qed
  with run res ok show ?thesis by blast
qed

section \<open>The concrete generator meets the library's contract\<close>

lemma mset_vacancy:
  assumes "j < length pool"
  shows "add_mset (pool ! j) (mset (butlast (pool[j := last pool]))) = mset pool"
proof -
  from assms have ne: "pool \<noteq> []" by auto
  then obtain ys l where pool: "pool = ys @ [l]" by (cases pool rule: rev_cases) auto
  show ?thesis
  proof (cases "j = length ys")
    case True
    with pool show ?thesis by simp
  next
    case False
    with assms pool have j: "j < length ys" by simp
    then have "butlast (pool[j := last pool]) = ys[j := l]"
      by (simp add: pool list_update_append)
    moreover have "pool ! j = ys ! j" using j by (simp add: pool nth_append)
    ultimately show ?thesis using j by (simp add: pool mset_update nth_mem_mset)
  qed
qed

lemma lcg_sample_length: "k \<le> length pool \<Longrightarrow> length (fst (lcg_sample g pool k)) = k"
proof (induction k arbitrary: g pool)
  case 0
  show ?case by simp
next
  case (Suc k)
  then have "k \<le> length (butlast (pool[g mod length pool := last pool]))" by simp
  from Suc.IH [OF this] show ?case
    by (simp add: lcg_randbelow_def split_beta)
qed

lemma lcg_sample_mset: "k \<le> length pool \<Longrightarrow> mset (fst (lcg_sample g pool k)) \<subseteq># mset pool"
proof (induction k arbitrary: g pool)
  case 0
  show ?case by simp
next
  case (Suc k)
  define j where "j = g mod length pool"
  from Suc.prems have j: "j < length pool" by (cases pool) (simp_all add: j_def)
  define pool' where "pool' = butlast (pool[j := last pool])"
  from Suc.prems have "k \<le> length pool'" by (simp add: pool'_def)
  from Suc.IH [OF this]
  have "mset (fst (lcg_sample ((g * 1103515245 + 12345) mod 2147483648) pool' k)) \<subseteq># mset pool'" .
  then have "add_mset (pool ! j) (mset (fst (lcg_sample ((g * 1103515245 + 12345) mod 2147483648) pool' k)))
      \<subseteq># add_mset (pool ! j) (mset pool')" by simp
  also have "\<dots> = mset pool" unfolding pool'_def using j by (rule mset_vacancy)
  finally show ?case
    by (simp add: lcg_randbelow_def split_beta j_def pool'_def)
qed

lemma lcg_shuffle_loop_mset:
  "i < length x \<Longrightarrow> mset (fst (lcg_shuffle_loop g i x)) = mset x"
proof (induction i arbitrary: g x)
  case 0
  show ?case by simp
next
  case (Suc i)
  define j where "j = g mod (Suc i + 1)"
  have j: "j < length x" using Suc.prems by (simp add: j_def) (meson less_trans_Suc mod_less_divisor not_less_eq zero_less_Suc)
  define x' where "x' = x[Suc i := x ! j, j := x ! Suc i]"
  have "mset x' = mset x" unfolding x'_def using j Suc.prems by (simp add: mset_swap)
  moreover have "i < length x'" using Suc.prems by (simp add: x'_def)
  ultimately show ?case using Suc.IH [of x']
    by (simp add: lcg_randbelow_def split_beta j_def x'_def)
qed

lemma lcg_shuffle_mset: "mset (fst (lcg_shuffle g x)) = mset x"
proof (cases x)
  case Nil
  then show ?thesis by (simp add: lcg_shuffle_def)
next
  case (Cons a as)
  then show ?thesis unfolding lcg_shuffle_def by (intro lcg_shuffle_loop_mset) simp
qed

lemma LCG_sample_ok: "sample_ok LCG"
  by (simp add: sample_ok_def LCG_def lcg_sample_length lcg_sample_mset)

lemma LCG_shuffle_ok: "shuffle_ok LCG"
  by (simp add: shuffle_ok_def LCG_def lcg_shuffle_mset)

text \<open>A run of the sampler on the concrete generator, evaluated step by step.\<close>

lemma lcg_sample_one:
  "lcg_sample g pool (Suc 0) =
     ([pool ! (g mod length pool)], (g * 1103515245 + 12345) mod 2147483648)"
  by (simp add: lcg_randbelow_def)

lemma lcg_shuffle_one: "lcg_shuffle g [a] = ([a], g)"
  by (simp add: lcg_shuffle_def)

lemma lcg_shuffle_two:
  "lcg_shuffle g [a, b] =
     (if g mod 2 = 0 then [b, a] else [a, b], (g * 1103515245 + 12345) mod 2147483648)"
proof -
  have two: "Suc (Suc 0) = 2" by simp
  have loop: "lcg_shuffle_loop g (Suc 0) [a, b] =
     ([a, b][Suc 0 := [a, b] ! (g mod 2), g mod 2 := b],
      (g * 1103515245 + 12345) mod 2147483648)"
    by (simp add: lcg_randbelow_def two)
  show ?thesis
  proof (cases "g mod 2 = 0")
    case True
    then show ?thesis unfolding lcg_shuffle_def by (simp add: loop del: lcg_shuffle_loop.simps)
  next
    case False
    then have "g mod 2 = Suc 0" by arith
    then show ?thesis unfolding lcg_shuffle_def by (simp add: loop del: lcg_shuffle_loop.simps)
  qed
qed

lemma lcg_seed_task_alice: "lcg_seed ''task#alice'' = 2031834441"
  by (simp add: lcg_seed_def)

lemma lcg_loops_task_alice:
  "sample_loose LCG [[(1, 1)], [(1, 2), (1, 1)]] (lcg_seed ''task#alice'', 0, []) =
     Inr (1312488709, 4, [0, 3, 1])"
proof -
  have u12: "[1..2] = [1, 2::int]" by (simp add: upto_rec1)
  have two: "Suc (Suc 0) = 2" by simp
  have inner1: "sample_groups LCG [(1, 1)] (2031834441, 0, []) = Inr (1679146574, 1, [0])"
    by (simp add: rand_sample_def LCG_def lcg_sample_one del: lcg_sample.simps)
  have inner2: "sample_groups LCG [(1, 2), (1, 1)] (1679146574, 1, []) =
      Inr (2124288124, 4, [1, 3])"
    by (simp add: rand_sample_def LCG_def lcg_sample_one u12 two del: lcg_sample.simps)
  have sh1: "rnd_shuffle LCG 1679146574 [0] = ([0], 1679146574)"
    by (simp add: LCG_def lcg_shuffle_one)
  have sh2: "rnd_shuffle LCG 2124288124 [1, 3] = ([3, 1], 1312488709)"
    by (simp add: LCG_def lcg_shuffle_two)
  show ?thesis
    unfolding lcg_seed_task_alice
    by (simp add: inner1 inner2 sh1 sh2 del: sample_groups.simps)
qed

lemma lcg_run_task_alice:
  "sample_subtasks LCG
     \<lparr>string = ''1;1/2,1'', total_pull = 3, total_bag = 4,
      groups = [[(1, 1)], [(1, 2), (1, 1)]]\<rparr> ''task'' ''alice'' = Inr [0, 3, 1]"
proof -
  have seed: "rnd_seed LCG (''task'' @ ''#'' @ ''alice'') = lcg_seed ''task#alice''"
    by (simp add: LCG_def)
  show ?thesis
    unfolding sample_subtasks_def Let_def seed
    by (simp add: lcg_loops_task_alice del: sample_loose.simps)
qed

section \<open>Score strings, stripping and the problem constructor\<close>


lemma join_5: "join '';'' (replicate 5 ''1'') = ''1;1;1;1;1''"
  by (simp add: eval_nat_numeral)

lemma score_055: "ScoreString_init lim ''0/5/5'' = Inr \<lparr>score_text = ''0/5/5'', minimum = 0, expected = 5, total = 5\<rparr>"
  by (simp add: ScoreString_init_def int_defs)
lemma score_635: "ScoreString_init lim ''6/3/5'' = Inl MinimumRange"
  by (simp add: ScoreString_init_def int_defs)
lemma score_165: "ScoreString_init lim ''1/6/5'' = Inl ExpectedRange"
  by (simp add: ScoreString_init_def int_defs)

lemma ScoreString_init_cases:
  "(length (split_on (CHR ''/'') s) \<noteq> 3 \<longrightarrow> ScoreString_init lim s = Inl WrongParts) \<and>
   (split_on (CHR ''/'') s = [a, b, c] \<longrightarrow>
      ((py_int lim a = None \<or> py_int lim b = None \<or> py_int lim c = None) \<longrightarrow>
          ScoreString_init lim s = Inl IllegalScore) \<and>
      (py_int lim a = Some mi \<and> py_int lim b = Some ex \<and> py_int lim c = Some to \<longrightarrow>
         ((mi < 0 \<or> mi > to) \<longrightarrow> ScoreString_init lim s = Inl MinimumRange) \<and>
         (0 \<le> mi \<and> mi \<le> to \<and> (ex < 0 \<or> ex > to) \<longrightarrow>
             ScoreString_init lim s = Inl ExpectedRange) \<and>
         (0 \<le> mi \<and> mi \<le> to \<and> 0 \<le> ex \<and> ex \<le> to \<longrightarrow>
             ScoreString_init lim s =
               Inr \<lparr>score_text = s, minimum = mi, expected = ex, total = to\<rparr>)))"
  by (auto simp: ScoreString_init_def Let_def split: option.splits)

lemma ScoreString_never_NegativeTotal: "ScoreString_init lim s \<noteq> Inl NegativeTotal"
  by (auto simp: ScoreString_init_def Let_def split: option.splits if_splits)

lemma ScoreString_negative_total:
  "split_on (CHR ''/'') s = [a, b, c] \<Longrightarrow> py_int lim a = Some mi \<Longrightarrow> py_int lim b = Some ex \<Longrightarrow>
   py_int lim c = Some to \<Longrightarrow> to < 0 \<Longrightarrow> ScoreString_init lim s = Inl MinimumRange"
  by (auto simp: ScoreString_init_def Let_def)

lemma py_strip_Nil: "py_strip s = [] \<longleftrightarrow> (\<forall>c\<in>set s. strip_space c)"
proof
  assume "\<forall>c\<in>set s. strip_space c"
  then have d: "dropWhile strip_space s = []" by (induction s) auto
  show "py_strip s = []" unfolding py_strip_def d by simp
next
  assume a: "py_strip s = []"
  show "\<forall>c\<in>set s. strip_space c"
  proof (rule ccontr)
    assume "\<not> (\<forall>c\<in>set s. strip_space c)"
    then have ne: "dropWhile strip_space s \<noteq> []" by (induction s) auto
    then have "\<not> strip_space (hd (dropWhile strip_space s))" by (rule hd_dropWhile)
    moreover have "hd (dropWhile strip_space s) \<in> set (rev (dropWhile strip_space s))"
      using ne by simp
    ultimately have "dropWhile strip_space (rev (dropWhile strip_space s)) \<noteq> []"
      unfolding dropWhile_eq_Nil_conv by blast
    with a show False by (simp add: py_strip_def)
  qed
qed

lemma py_int_Nil: "py_int lim [] = None"
  by (simp add: int_defs)

lemma spec_group_Nil: "spec_group lim [] = Inl IllegalGroup"
  by (simp add: spec_group_def py_int_Nil)

lemma spec_tokens_not_Nil: "spec_tokens s \<noteq> []"
proof -
  obtain seg segs where "split_on (CHR '';'') s = seg # segs"
    using split_on_not_Nil [of "CHR '';''" s] by (cases "split_on (CHR '';'') s") auto
  then show ?thesis by (simp add: spec_tokens_def split_on_not_Nil)
qed

lemma init_empty_tokens:
  assumes "\<forall>tok\<in>set (spec_tokens s). tok = []"
  shows "SubtaskString_init lim s = Inl IllegalGroup"
proof -
  obtain tok post where eq: "spec_tokens s = tok # post"
    using spec_tokens_not_Nil [of s] by (cases "spec_tokens s") auto
  with assms have "tok = []" by simp
  with eq have "spec_tokens s = [] @ [] # post" "spec_group lim [] = Inl IllegalGroup"
    by (simp_all add: spec_group_Nil)
  then show ?thesis unfolding SubtaskString_init_fails_iff by (metis empty_iff list.set(1))
qed

lemma MultifillProblem_init_Inr:
  assumes "MultifillProblem_init base lim problemid c = Inr p"
  shows "c_subtasks c = Some (subtasks p)"
    and "choose_subtask_string lim c (subtasks p) = Inr (subtask_string p)"
    and "choose_score_string lim c (subtasks p) = Inr (score_string p)"
    and "total_bag (subtask_string p) = int (length (subtasks p))"
  using assms
  by (auto simp: MultifillProblem_init_def Let_def split: option.splits sum.splits if_splits)

lemma MultifillProblem_init_mismatch:
  assumes "base problemid c = None" "c_subtasks c = Some sts" "check_texts 0 sts = None"
    "choose_subtask_string lim c sts = Inr ss" "total_bag ss \<noteq> int (length sts)"
  shows "MultifillProblem_init base lim problemid c = Inl (BagMismatch (length sts) (total_bag ss))"
  using assms by (auto simp: MultifillProblem_init_def Let_def)

section \<open>The call inside a process\<close>

lemma Random_sample_frame:
  "\<exists>g'. snd (Random_sample R a population k p) = p\<lparr>rand_objs := (rand_objs p)(a := g')\<rparr>"
proof (cases "rand_sample R (rand_objs p a) population k")
  case (Inl e)
  then have "snd (Random_sample R a population k p) =
      p\<lparr>rand_objs := (rand_objs p)(a := rand_objs p a)\<rparr>"
    by (simp add: Random_sample_def)
  then show ?thesis by (rule exI)
next
  case (Inr r)
  then have "snd (Random_sample R a population k p) =
      p\<lparr>rand_objs := (rand_objs p)(a := snd r)\<rparr>"
    by (simp add: Random_sample_def split_beta)
  then show ?thesis by (rule exI)
qed

lemma sample_groups_in_frame:
  "\<exists>g'. snd (sample_groups_in R a gs st p) = p\<lparr>rand_objs := (rand_objs p)(a := g')\<rparr>"
proof (induction gs arbitrary: st p)
  case Nil
  have "snd (sample_groups_in R a [] st p) = p\<lparr>rand_objs := (rand_objs p)(a := rand_objs p a)\<rparr>"
    by simp
  then show ?case by (rule exI)
next
  case (Cons g gs)
  obtain pull bag where g: "g = (pull, bag)" by (cases g)
  obtain bc sh where st: "st = (bc, sh)" by (cases st)
  define r where "r = Random_sample R a [bc .. bc + bag - 1] pull p"
  have "\<exists>g1. snd r = p\<lparr>rand_objs := (rand_objs p)(a := g1)\<rparr>"
    unfolding r_def by (rule Random_sample_frame)
  then obtain g1 where p1: "snd r = p\<lparr>rand_objs := (rand_objs p)(a := g1)\<rparr>" ..
  show ?case
  proof (cases "fst r")
    case (Inl e)
    then have "snd (sample_groups_in R a (g # gs) st p) = snd r"
      by (simp add: g st r_def [symmetric] split_beta Let_def)
    with p1 have "snd (sample_groups_in R a (g # gs) st p) =
        p\<lparr>rand_objs := (rand_objs p)(a := g1)\<rparr>" by simp
    then show ?thesis by (rule exI)
  next
    case (Inr picked)
    then have "snd (sample_groups_in R a (g # gs) st p) =
        snd (sample_groups_in R a gs (bc + bag, sh @ picked) (snd r))"
      by (simp add: g st r_def [symmetric] split_beta Let_def)
    moreover from Cons.IH [of "(bc + bag, sh @ picked)" "snd r"] obtain g' where
      "snd (sample_groups_in R a gs (bc + bag, sh @ picked) (snd r)) =
         (snd r)\<lparr>rand_objs := (rand_objs (snd r))(a := g')\<rparr>" ..
    ultimately have "snd (sample_groups_in R a (g # gs) st p) =
        p\<lparr>rand_objs := (rand_objs p)(a := g')\<rparr>"
      by (simp add: p1)
    then show ?thesis by (rule exI)
  qed
qed

lemma sample_groups_in_pure:
  "sample_groups R gs (rand_objs p a, bc, sh) =
     (case sample_groups_in R a gs (bc, sh) p of
        (Inl e, p') \<Rightarrow> Inl e
      | (Inr (bc', sh'), p') \<Rightarrow> Inr (rand_objs p' a, bc', sh'))"
proof (induction gs arbitrary: bc sh p)
  case Nil
  show ?case by simp
next
  case (Cons g gs)
  obtain pull bag where g: "g = (pull, bag)" by (cases g)
  show ?case
  proof (cases "rand_sample R (rand_objs p a) [bc .. bc + bag - 1] pull")
    case (Inl e)
    then show ?thesis by (simp add: g Random_sample_def)
  next
    case (Inr r)
    obtain picked g1 where r: "r = (picked, g1)" by (cases r)
    define p1 where "p1 = p\<lparr>rand_objs := (rand_objs p)(a := g1)\<rparr>"
    have g1: "rand_objs p1 a = g1" by (simp add: p1_def)
    from Inr r show ?thesis
      using Cons.IH [of p1 "bc + bag" "sh @ picked"]
      by (simp add: g Random_sample_def p1_def [symmetric] g1)
  qed
qed

lemma Random_shuffle_frame:
  "snd (Random_shuffle R a x p) =
     p\<lparr>rand_objs := (rand_objs p)(a := snd (rnd_shuffle R (rand_objs p a) x))\<rparr>"
  by (simp add: Random_shuffle_def split_beta)

lemma sample_loose_in_frame:
  "\<exists>g'. snd (sample_loose_in R a gss st p) = p\<lparr>rand_objs := (rand_objs p)(a := g')\<rparr>"
proof (induction gss arbitrary: st p)
  case Nil
  have "snd (sample_loose_in R a [] st p) = p\<lparr>rand_objs := (rand_objs p)(a := rand_objs p a)\<rparr>"
    by simp
  then show ?case by (rule exI)
next
  case (Cons gs gss)
  obtain bc res where st: "st = (bc, res)" by (cases st)
  define r where "r = sample_groups_in R a gs (bc, []) p"
  have "\<exists>g1. snd r = p\<lparr>rand_objs := (rand_objs p)(a := g1)\<rparr>"
    unfolding r_def by (rule sample_groups_in_frame)
  then obtain g1 where p1: "snd r = p\<lparr>rand_objs := (rand_objs p)(a := g1)\<rparr>" ..
  show ?case
  proof (cases "fst r")
    case (Inl e)
    then have "snd (sample_loose_in R a (gs # gss) st p) = snd r"
      by (simp add: st r_def [symmetric] split_beta)
    with p1 have "snd (sample_loose_in R a (gs # gss) st p) =
        p\<lparr>rand_objs := (rand_objs p)(a := g1)\<rparr>" by simp
    then show ?thesis by (rule exI)
  next
    case (Inr v)
    define s where "s = Random_shuffle R a (snd v) (snd r)"
    have p2: "snd s = p\<lparr>rand_objs := (rand_objs p)(a := snd (rnd_shuffle R g1 (snd v)))\<rparr>"
      unfolding s_def Random_shuffle_frame by (simp add: p1)
    from Inr have "snd (sample_loose_in R a (gs # gss) st p) =
        snd (sample_loose_in R a gss (fst v, res @ fst s) (snd s))"
      by (simp add: st r_def [symmetric] s_def split_beta)
    moreover from Cons.IH [of "(fst v, res @ fst s)" "snd s"] obtain g' where
      "snd (sample_loose_in R a gss (fst v, res @ fst s) (snd s)) =
         (snd s)\<lparr>rand_objs := (rand_objs (snd s))(a := g')\<rparr>" ..
    ultimately have "snd (sample_loose_in R a (gs # gss) st p) =
        p\<lparr>rand_objs := (rand_objs p)(a := g')\<rparr>"
      by (simp add: p2)
    then show ?thesis by (rule exI)
  qed
qed

lemma sample_loose_in_pure:
  "sample_loose R gss (rand_objs p a, bc, res) =
     (case sample_loose_in R a gss (bc, res) p of
        (Inl e, p') \<Rightarrow> Inl e
      | (Inr (bc', res'), p') \<Rightarrow> Inr (rand_objs p' a, bc', res'))"
proof (induction gss arbitrary: bc res p)
  case Nil
  show ?case by simp
next
  case (Cons gs gss)
  define r where "r = sample_groups_in R a gs (bc, []) p"
  show ?case
  proof (cases "fst r")
    case (Inl e)
    then show ?thesis
      by (simp add: sample_groups_in_pure r_def [symmetric] split_beta
          del: sample_groups.simps sample_groups_in.simps)
  next
    case (Inr v)
    define s where "s = Random_shuffle R a (snd v) (snd r)"
    have fs: "fst s = fst (rnd_shuffle R (rand_objs (snd r) a) (snd v))"
      by (simp add: s_def Random_shuffle_def split_beta)
    have gs: "rand_objs (snd s) a = snd (rnd_shuffle R (rand_objs (snd r) a) (snd v))"
      by (simp add: s_def Random_shuffle_def split_beta)
    from Inr show ?thesis
      using Cons.IH [of "snd s" "fst v" "res @ fst s"]
      by (simp add: sample_groups_in_pure r_def [symmetric] s_def [symmetric] split_beta
          fs [symmetric] gs [symmetric]
          del: sample_groups.simps sample_groups_in.simps)
  qed
qed

lemma sample_subtasks_in_frame:
  "\<exists>g. snd (sample_subtasks_in R self task_id seed p) =
         p\<lparr>rand_objs := (rand_objs p)(next_obj p := g), next_obj := Suc (next_obj p)\<rparr>"
proof -
  define a where "a = next_obj p"
  define p0 where "p0 = p\<lparr>rand_objs := (rand_objs p)(a := rnd_seed R (task_id @ ''#'' @ seed)),
      next_obj := Suc a\<rparr>"
  define r where "r = sample_loose_in R a (groups (spec_objs p0 self)) (0, []) p0"
  have new: "Random_new R (Some (task_id @ ''#'' @ seed)) p = (a, p0)"
    by (simp add: Random_new_def a_def p0_def)
  have "\<exists>g'. snd r = p0\<lparr>rand_objs := (rand_objs p0)(a := g')\<rparr>"
    unfolding r_def by (rule sample_loose_in_frame)
  then obtain g' where p1: "snd r = p0\<lparr>rand_objs := (rand_objs p0)(a := g')\<rparr>" ..
  have "snd (sample_subtasks_in R self task_id seed p) = snd r"
    unfolding sample_subtasks_in_def new by (simp add: r_def [symmetric] split_beta split: sum.splits)
  with p1 have "snd (sample_subtasks_in R self task_id seed p) =
      p\<lparr>rand_objs := (rand_objs p)(next_obj p := g'), next_obj := Suc (next_obj p)\<rparr>"
    by (simp add: p0_def a_def)
  then show ?thesis by (rule exI)
qed

lemma sample_subtasks_in_pure:
  "fst (sample_subtasks_in R self task_id seed p) =
     sample_subtasks R (spec_objs p self) task_id seed"
proof -
  define a where "a = next_obj p"
  define p0 where "p0 = p\<lparr>rand_objs := (rand_objs p)(a := rnd_seed R (task_id @ ''#'' @ seed)),
      next_obj := Suc a\<rparr>"
  define r where "r = sample_loose_in R a (groups (spec_objs p self)) (0, []) p0"
  have new: "Random_new R (Some (task_id @ ''#'' @ seed)) p = (a, p0)"
    by (simp add: Random_new_def a_def p0_def)
  have sp0: "spec_objs p0 = spec_objs p" by (simp add: p0_def)
  have g0: "rnd_seed R (task_id @ ''#'' @ seed) = rand_objs p0 a" by (simp add: p0_def)
  have "\<exists>g'. snd r = p0\<lparr>rand_objs := (rand_objs p0)(a := g')\<rparr>"
    unfolding r_def by (rule sample_loose_in_frame)
  then obtain g' where p1: "snd r = p0\<lparr>rand_objs := (rand_objs p0)(a := g')\<rparr>" ..
  then have sp1: "spec_objs (snd r) = spec_objs p" by (simp add: sp0)
  show ?thesis
    unfolding sample_subtasks_in_def sample_subtasks_def new Let_def g0
    by (simp add: sample_loose_in_pure sp0 r_def [symmetric] split_beta sp1
        split: sum.splits del: sample_loose.simps sample_loose_in.simps)
qed

lemma calls_keep_specs:
  "spec_objs (fold (\<lambda>(s, t, sd) q. snd (sample_subtasks_in R s t sd q)) calls p) = spec_objs p"
proof (induction calls arbitrary: p)
  case Nil
  show ?case by simp
next
  case (Cons c calls)
  obtain s t sd where c: "c = (s, t, sd)" by (cases c)
  have "\<exists>g. snd (sample_subtasks_in R s t sd p) =
      p\<lparr>rand_objs := (rand_objs p)(next_obj p := g), next_obj := Suc (next_obj p)\<rparr>"
    by (rule sample_subtasks_in_frame)
  then obtain g where "snd (sample_subtasks_in R s t sd p) =
      p\<lparr>rand_objs := (rand_objs p)(next_obj p := g), next_obj := Suc (next_obj p)\<rparr>" ..
  then have "spec_objs (snd (sample_subtasks_in R s t sd p)) = spec_objs p" by simp
  with Cons.IH [of "snd (sample_subtasks_in R s t sd p)"] show ?case by (simp add: c)
qed

section \<open>Two concrete specifications\<close>

lemma sample_one_of:
  assumes "sample_ok R" and "pool \<noteq> []"
  shows "\<exists>y\<in>set pool. fst (rnd_sample R g pool (Suc 0)) = [y]"
proof -
  define xs where "xs = fst (rnd_sample R g pool (Suc 0))"
  from assms have "Suc 0 \<le> length pool" by (cases pool) auto
  with assms(1) have len: "length xs = Suc 0" and sub: "mset xs \<subseteq># mset pool"
    unfolding sample_ok_def xs_def by blast+
  from len obtain y where xs: "xs = [y]" by (cases xs) auto
  from sub have "set xs \<subseteq> set pool" by (metis set_mset_mono set_mset_mset)
  with xs show ?thesis unfolding xs_def by auto
qed

lemma sample_singleton:
  "sample_ok R \<Longrightarrow> fst (rnd_sample R g [a] (Suc 0)) = [a]"
  using sample_one_of [of R "[a]" g] by auto

lemma shuffle_singleton: "shuffle_ok R \<Longrightarrow> fst (rnd_shuffle R g [a]) = [a]"
proof -
  assume "shuffle_ok R"
  then have "mset (fst (rnd_shuffle R g [a])) = mset [a]" unfolding shuffle_ok_def by blast
  then show ?thesis by simp
qed

lemma mset_pair_cases:
  assumes "mset xs = mset [a, b]"
  shows "xs = [a, b] \<or> xs = [b, a]"
proof -
  from assms have "length xs = 2" by (metis length_Cons list.size(3) mset_eq_length numeral_2_eq_2)
  then obtain c d where xs: "xs = [c, d]"
    by (cases xs; cases "tl xs") auto
  with assms have "{#c, d#} = {#a, b#}" by simp
  then have "(c = a \<and> d = b) \<or> (c = b \<and> d = a)"
    by (auto simp: add_eq_conv_ex)
  with xs show ?thesis by auto
qed

lemma shuffle_pair:
  "shuffle_ok R \<Longrightarrow> fst (rnd_shuffle R g [a, b]) = [a, b] \<or> fst (rnd_shuffle R g [a, b]) = [b, a]"
  unfolding shuffle_ok_def by (rule mset_pair_cases) blast

lemma sample_1_12_1:
  assumes R: "sample_ok R" "shuffle_ok R"
  shows "\<exists>x. (x = 1 \<or> x = 2) \<and>
     (sample_subtasks R \<lparr>string = ''1;1/2,1'', total_pull = 3, total_bag = 4,
          groups = [[(1, 1)], [(1, 2), (1, 1)]]\<rparr> task_id seed = Inr [0, x, 3] \<or>
      sample_subtasks R \<lparr>string = ''1;1/2,1'', total_pull = 3, total_bag = 4,
          groups = [[(1, 1)], [(1, 2), (1, 1)]]\<rparr> task_id seed = Inr [0, 3, x])"
proof -
  define g0 where "g0 = rnd_seed R (task_id @ ''#'' @ seed)"
  define r1 where "r1 = rnd_sample R g0 [0] (Suc 0)"
  define s1 where "s1 = rnd_shuffle R (snd r1) [0]"
  define r2 where "r2 = rnd_sample R (snd s1) [1, 2] (Suc 0)"
  define r3 where "r3 = rnd_sample R (snd r2) [3] (Suc 0)"
  define s2 where "s2 = rnd_shuffle R (snd r3) (fst r2 @ [3])"
  have f1: "fst r1 = [0]" unfolding r1_def using R(1) by (rule sample_singleton)
  have fs1: "fst s1 = [0]" unfolding s1_def using R(2) by (rule shuffle_singleton)
  obtain x where x: "x = 1 \<or> x = 2" and f2: "fst r2 = [x]"
    using sample_one_of [OF R(1), of "[1, 2]" "snd s1"] unfolding r2_def by auto
  have f3: "fst r3 = [3]" unfolding r3_def using R(1) by (rule sample_singleton)
  have fs2: "fst s2 = [x, 3] \<or> fst s2 = [3, x]"
    unfolding s2_def f2 using shuffle_pair [OF R(2)] by simp
  have u12: "[1..2] = [1, 2::int]" by (simp add: upto_rec1)
  have inner1: "sample_groups R [(1, 1)] (g0, 0, []) = Inr (snd r1, 1, [0])"
    using f1 by (simp add: rand_sample_def split_beta Let_def r1_def)
  have inner2: "sample_groups R [(1, 2), (1, 1)] (snd s1, 1, []) = Inr (snd r3, 4, fst r2 @ [3])"
    using f3 by (simp add: rand_sample_def split_beta Let_def u12 r2_def r3_def)
  have outer: "sample_loose R [[(1, 1)], [(1, 2), (1, 1)]] (g0, 0, []) =
      Inr (snd s2, 4, 0 # fst s2)"
    using fs1
    by (simp add: inner1 inner2 split_beta s1_def [symmetric] s2_def [symmetric]
        del: sample_groups.simps)
  have run: "sample_subtasks R \<lparr>string = ''1;1/2,1'', total_pull = 3, total_bag = 4,
          groups = [[(1, 1)], [(1, 2), (1, 1)]]\<rparr> task_id seed = Inr (0 # fst s2)"
    unfolding sample_subtasks_def Let_def g0_def [symmetric]
    by (simp add: outer del: sample_loose.simps)
  from fs2 x run show ?thesis by auto
qed

lemma sample_loose_ones:
  assumes R: "sample_ok R" "shuffle_ok R"
  shows "\<exists>rand'. sample_loose R (replicate n [(1, 1)]) (rand, bc, res) =
           Inr (rand', bc + int n, res @ [bc .. bc + int n - 1])"
proof (induction n arbitrary: rand bc res)
  case 0
  show ?case by simp
next
  case (Suc n)
  define r where "r = rnd_sample R rand [bc] (Suc 0)"
  define s where "s = rnd_shuffle R (snd r) [bc]"
  have fr: "fst r = [bc]" unfolding r_def using R(1) by (rule sample_singleton)
  have fs: "fst s = [bc]" unfolding s_def using R(2) by (rule shuffle_singleton)
  have inner: "sample_groups R [(1, 1)] (rand, bc, []) = Inr (snd r, bc + 1, [bc])"
    using fr by (simp add: rand_sample_def split_beta Let_def r_def)
  from Suc.IH [of "snd s" "bc + 1" "res @ [bc]"] obtain rand' where
    "sample_loose R (replicate n [(1, 1)]) (snd s, bc + 1, res @ [bc]) =
       Inr (rand', bc + 1 + int n, (res @ [bc]) @ [bc + 1 .. bc + 1 + int n - 1])" by blast
  moreover have "[bc .. bc + int (Suc n) - 1] = bc # [bc + 1 .. bc + 1 + int n - 1]"
    by (simp add: upto_rec1 [of bc] add.commute add.left_commute)
  ultimately have "sample_loose R (replicate (Suc n) [(1, 1)]) (rand, bc, res) =
      Inr (rand', bc + int (Suc n), res @ [bc .. bc + int (Suc n) - 1])"
    using fs
    by (simp add: inner split_beta s_def [symmetric] add.commute add.left_commute
        del: sample_groups.simps)
  then show ?case by blast
qed

lemma sample_five:
  assumes R: "sample_ok R" "shuffle_ok R"
  shows "sample_subtasks R \<lparr>string = ''1;1;1;1;1'', total_pull = 5, total_bag = 5,
          groups = [[(1, 1)], [(1, 1)], [(1, 1)], [(1, 1)], [(1, 1)]]\<rparr> task_id seed
         = Inr [0, 1, 2, 3, 4]"
proof -
  have g: "[[(1, 1)], [(1, 1)], [(1, 1)], [(1, 1)], [(1, 1)]] = replicate 5 [(1::int, 1::int)]"
    by (simp add: eval_nat_numeral)
  have u: "[0 .. 4] = [0, 1, 2, 3, 4::int]" by (simp add: upto_rec1)
  from sample_loose_ones [OF R, of 5 "rnd_seed R (task_id @ ''#'' @ seed)" 0 "[]"]
  show ?thesis unfolding sample_subtasks_def Let_def
    by (auto simp: g u simp del: sample_loose.simps)
qed

lemma init_1_12_1:
  "SubtaskString_init lim ''1;1/2,1'' =
     Inr \<lparr>string = ''1;1/2,1'', total_pull = 3, total_bag = 4,
          groups = [[(1, 1)], [(1, 2), (1, 1)]]\<rparr>"
  by (simp add: SubtaskString_init_def parse_group_def int_defs)

lemma py_str_5: "py_str 5 = ''5''"
  by (simp add: py_str.simps [of 5] digit_char_def)

lemma init_five:
  "SubtaskString_init lim ''1;1;1;1;1'' =
     Inr \<lparr>string = ''1;1;1;1;1'', total_pull = 5, total_bag = 5,
          groups = [[(1, 1)], [(1, 1)], [(1, 1)], [(1, 1)], [(1, 1)]]\<rparr>"
  by (simp add: SubtaskString_init_def parse_group_def int_defs)

lemmas spec_eval = spec_parse_def spec_segment_def spec_group_def check_group_def int_defs

lemma choose_subtask_string_None:
  "c_subtask_string c = None \<Longrightarrow>
   choose_subtask_string lim c sts = SubtaskString_default_for_subtasks lim sts"
  by (simp add: choose_subtask_string_def dict_get_def py_strip_def)

lemma choose_subtask_string_Some:
  "c_subtask_string c = Some t \<Longrightarrow>
   choose_subtask_string lim c sts =
     (if \<forall>ch\<in>set t. strip_space ch then SubtaskString_default_for_subtasks lim sts
      else SubtaskString_init lim t)"
  using py_strip_Nil [of t] by (simp add: choose_subtask_string_def dict_get_def dict_index_def)

section \<open>The claims\<close>

text \<open>
  C1. A call of \<^verbatim>\<open>sample_subtasks\<close>, made in any state of the process, returns what the
  specification, the problem identifier and the seed alone determine: the result is that
  of the function \<open>sample_subtasks\<close>, whatever generators exist, whatever the randomness
  source holds and whatever identities are in use. The call changes nothing but the
  generator it has made itself, at an identity that was not in use: the specifications
  and all other generators are as they were. Hence two calls on equal specifications
  whose identifier and seed give the same string \<^verbatim>\<open>"{task_id}#{seed}"\<close> return the same
  result in any two states of the process, and a call returns the same after any
  sequence of other calls. What \<^verbatim>\<open>Random(str)\<close> computes from its string and what the
  methods do with the state of their instance belongs to the library; that they use
  nothing else is the interface \<open>Random\<close> of the model.
\<close>

theorem sample_subtasks_deterministic:
  "fst (sample_subtasks_in R self task_id seed p) =
     sample_subtasks R (spec_objs p self) task_id seed \<and>
   (\<exists>g. snd (sample_subtasks_in R self task_id seed p) =
      p\<lparr>rand_objs := (rand_objs p)(next_obj p := g), next_obj := Suc (next_obj p)\<rparr>) \<and>
   (spec_objs p self = spec_objs p' self' \<and>
    task_id @ ''#'' @ seed = task_id' @ ''#'' @ seed' \<longrightarrow>
      fst (sample_subtasks_in R self task_id seed p) =
      fst (sample_subtasks_in R self' task_id' seed' p')) \<and>
   fst (sample_subtasks_in R self task_id seed
          (fold (\<lambda>(s, t, sd) q. snd (sample_subtasks_in R s t sd q)) calls p)) =
     fst (sample_subtasks_in R self task_id seed p)"
proof -
  have same: "sample_subtasks R (spec_objs p self) task_id seed =
      sample_subtasks R (spec_objs p' self') task_id' seed'"
    if "spec_objs p self = spec_objs p' self'"
      and "task_id @ ''#'' @ seed = task_id' @ ''#'' @ seed'"
    using that by (simp add: sample_subtasks_def)
  show ?thesis
    using sample_subtasks_in_frame [of R self task_id seed p] same
    by (simp add: sample_subtasks_in_pure calls_keep_specs)
qed

theorem sample_subtasks_deterministic_witness:
  "fst (sample_subtasks_in LCG 0 ''task'' ''alice''
          \<lparr>spec_objs = (\<lambda>i. \<lparr>string = ''1;1/2,1'', total_pull = 3, total_bag = 4,
                                 groups = [[(1, 1)], [(1, 2), (1, 1)]]\<rparr>),
           rand_objs = (\<lambda>i. 0), next_obj = 2, entropy = ''e1''\<rparr>) = Inr [0, 3, 1] \<and>
   fst (sample_subtasks_in LCG 1 ''task'' ''alice''
          \<lparr>spec_objs = (\<lambda>i. \<lparr>string = ''1;1/2,1'', total_pull = 3, total_bag = 4,
                                 groups = [[(1, 1)], [(1, 2), (1, 1)]]\<rparr>),
           rand_objs = (\<lambda>i. 7), next_obj = 5, entropy = ''e2''\<rparr>) = Inr [0, 3, 1] \<and>
   fst (sample_subtasks_in LCG 0 ''task'' ''alice''
          (fold (\<lambda>(s, t, sd) q. snd (sample_subtasks_in LCG s t sd q))
             [(0, ''other'', ''bob''), (0, ''task'', ''alice'')]
             \<lparr>spec_objs = (\<lambda>i. \<lparr>string = ''1;1/2,1'', total_pull = 3, total_bag = 4,
                                    groups = [[(1, 1)], [(1, 2), (1, 1)]]\<rparr>),
              rand_objs = (\<lambda>i. 0), next_obj = 2, entropy = ''e1''\<rparr>)) = Inr [0, 3, 1]"
proof -
  let ?W = "\<lparr>string = ''1;1/2,1'', total_pull = 3, total_bag = 4,
             groups = [[(1, 1)], [(1, 2), (1, 1)]]\<rparr>"
  let ?p = "\<lparr>spec_objs = (\<lambda>i. ?W), rand_objs = (\<lambda>i. 0::nat), next_obj = 2, entropy = ''e1''\<rparr>"
  let ?p' = "\<lparr>spec_objs = (\<lambda>i. ?W), rand_objs = (\<lambda>i. 7::nat), next_obj = 5, entropy = ''e2''\<rparr>"
  note t = sample_subtasks_deterministic [where R = LCG and self = 0 and task_id = "''task''"
      and seed = "''alice''" and p = ?p and p' = ?p' and self' = 1 and task_id' = "''task''"
      and seed' = "''alice''" and calls = "[(0, ''other'', ''bob''), (0, ''task'', ''alice'')]"]
  note t1 = t [THEN conjunct1]
  note t3 = t [THEN conjunct2, THEN conjunct2, THEN conjunct1]
  note t4 = t [THEN conjunct2, THEN conjunct2, THEN conjunct2]
  from t1 have 1: "fst (sample_subtasks_in LCG 0 ''task'' ''alice'' ?p) = Inr [0, 3, 1]"
    by (simp add: lcg_run_task_alice)
  from t3 1 have 2: "fst (sample_subtasks_in LCG 1 ''task'' ''alice'' ?p') = Inr [0, 3, 1]"
    by simp
  have 3: "fst (sample_subtasks_in LCG 0 ''task'' ''alice''
      (fold (\<lambda>(s, t, sd) q. snd (sample_subtasks_in LCG s t sd q))
         [(0, ''other'', ''bob''), (0, ''task'', ''alice'')] ?p)) = Inr [0, 3, 1]"
    unfolding t4 by (rule 1)
  from 1 2 3 show ?thesis by blast
qed

text \<open>
  C2. For a specification string the constructor accepts, and any problem identifier and
  seed, \<^verbatim>\<open>sample_subtasks\<close> returns a list of exactly \<open>total_pull\<close> indices, without
  duplicates, each between \<open>0\<close> and \<open>total_bag - 1\<close>. The generator is any
  implementation whose \<^verbatim>\<open>sample\<close> draws without replacement and whose \<^verbatim>\<open>shuffle\<close>
  rearranges.
\<close>

theorem sample_subtasks_cardinality:
  assumes "sample_ok R" and "shuffle_ok R"
    and "SubtaskString_init lim s = Inr self"
  shows "\<exists>result. sample_subtasks R self task_id seed = Inr result \<and>
           int (length result) = total_pull self \<and> distinct result \<and>
           (\<forall>i\<in>set result. 0 \<le> i \<and> i < total_bag self)"
  using sample_subtasks_valid [OF assms(3), of R task_id seed] assms(1,2) by blast

theorem sample_subtasks_cardinality_witness:
  "sample_ok LCG \<and> shuffle_ok LCG \<and>
   SubtaskString_init 4300 ''1;1/2,1'' =
     Inr \<lparr>string = ''1;1/2,1'', total_pull = 3, total_bag = 4,
          groups = [[(1, 1)], [(1, 2), (1, 1)]]\<rparr> \<and>
   sample_subtasks LCG
     \<lparr>string = ''1;1/2,1'', total_pull = 3, total_bag = 4,
      groups = [[(1, 1)], [(1, 2), (1, 1)]]\<rparr> ''task'' ''alice'' = Inr [0, 3, 1] \<and>
   (\<exists>result.
      sample_subtasks LCG
        \<lparr>string = ''1;1/2,1'', total_pull = 3, total_bag = 4,
         groups = [[(1, 1)], [(1, 2), (1, 1)]]\<rparr> ''task'' ''alice'' = Inr result \<and>
      length result = 3 \<and> distinct result \<and> (\<forall>i\<in>set result. 0 \<le> i \<and> i < 4))"
  using sample_subtasks_cardinality [OF LCG_sample_ok LCG_shuffle_ok init_1_12_1 [of 4300],
      where task_id = "''task''" and seed = "''alice''"]
    LCG_sample_ok LCG_shuffle_ok init_1_12_1 [of 4300] lcg_run_task_alice
  by simp

text \<open>
  C3. For the specification string \<^verbatim>\<open>1;1/2,1\<close>, over four sub-questions, every call
  returns \<open>[0, x, 3]\<close> or \<open>[0, 3, x]\<close> with \<open>x\<close> one of 1 and 2: index 0 comes first
  and nowhere else, index 3 is always present, and only the picks of the second segment
  are rearranged. The generator is any implementation whose \<^verbatim>\<open>sample\<close> draws without
  replacement and whose \<^verbatim>\<open>shuffle\<close> rearranges.
\<close>

theorem sample_subtasks_segment_order:
  assumes "sample_ok R" and "shuffle_ok R"
    and "SubtaskString_init lim ''1;1/2,1'' = Inr self"
  shows "total_bag self = 4 \<and>
         (\<exists>x. (x = 1 \<or> x = 2) \<and>
            (sample_subtasks R self task_id seed = Inr [0, x, 3] \<or>
             sample_subtasks R self task_id seed = Inr [0, 3, x]))"
proof -
  from assms(3) have self: "self = \<lparr>string = ''1;1/2,1'', total_pull = 3, total_bag = 4,
      groups = [[(1, 1)], [(1, 2), (1, 1)]]\<rparr>"
    by (simp add: init_1_12_1)
  from sample_1_12_1 [OF assms(1,2), of task_id seed] show ?thesis
    unfolding self by simp
qed

theorem sample_subtasks_segment_order_witness:
  "sample_ok LCG \<and> shuffle_ok LCG \<and>
   SubtaskString_init 4300 ''1;1/2,1'' =
     Inr \<lparr>string = ''1;1/2,1'', total_pull = 3, total_bag = 4,
          groups = [[(1, 1)], [(1, 2), (1, 1)]]\<rparr> \<and>
   sample_subtasks LCG
     \<lparr>string = ''1;1/2,1'', total_pull = 3, total_bag = 4,
      groups = [[(1, 1)], [(1, 2), (1, 1)]]\<rparr> ''task'' ''alice'' = Inr [0, 3, 1] \<and>
   (\<exists>x. (x = 1 \<or> x = 2) \<and>
      (sample_subtasks LCG
         \<lparr>string = ''1;1/2,1'', total_pull = 3, total_bag = 4,
          groups = [[(1, 1)], [(1, 2), (1, 1)]]\<rparr> ''task'' ''alice'' = Inr [0, x, 3] \<or>
       sample_subtasks LCG
         \<lparr>string = ''1;1/2,1'', total_pull = 3, total_bag = 4,
          groups = [[(1, 1)], [(1, 2), (1, 1)]]\<rparr> ''task'' ''alice'' = Inr [0, 3, x]))"
  using sample_subtasks_segment_order [OF LCG_sample_ok LCG_shuffle_ok init_1_12_1 [of 4300],
      where task_id = "''task''" and seed = "''alice''"]
    LCG_sample_ok LCG_shuffle_ok init_1_12_1 [of 4300] lcg_run_task_alice
  by simp

text \<open>
  C4. The constructor of \<^verbatim>\<open>SubtaskString\<close> computes the grammar of the specification:
  semicolons separate segments, commas separate groups, a bare integer \<open>n\<close> is the group
  \<open>(n, n)\<close> and \<open>p/b\<close> the group \<open>(p, b)\<close>. A group that is not of one of these two
  forms is a malformed group; a well-formed one fails with a negative pull when
  \<open>pull < 0\<close>, else with an empty bag when \<open>bag < 1\<close>, else with a pull exceeding the
  bag when \<open>pull > bag\<close> (\<open>spec_group\<close>). The constructor succeeds exactly when no group
  fails, and it then holds the groups in order; otherwise its error is the error of the
  leftmost group that fails.
\<close>

theorem SubtaskString_init_grammar:
  "SubtaskString_init lim s =
     (case spec_parse lim s of
        Inl e \<Rightarrow> Inl e
      | Inr gss \<Rightarrow>
          Inr \<lparr>string = s, total_pull = sum_pull gss, total_bag = sum_bag gss,
               groups = gss\<rparr>) \<and>
   ((\<exists>self. SubtaskString_init lim s = Inr self) \<longleftrightarrow>
      (\<forall>tok\<in>set (spec_tokens s). \<exists>g. spec_group lim tok = Inr g)) \<and>
   (SubtaskString_init lim s = Inl e \<longleftrightarrow>
      (\<exists>pre tok post. spec_tokens s = pre @ tok # post \<and>
         (\<forall>t\<in>set pre. \<exists>g. spec_group lim t = Inr g) \<and> spec_group lim tok = Inl e))"
  using SubtaskString_init_spec [of lim s] SubtaskString_init_succeeds_iff [of lim s]
    SubtaskString_init_fails_iff [of lim s e]
  by blast

theorem SubtaskString_init_grammar_witness:
  "SubtaskString_init 4300 ''1;2/3,4'' =
     Inr \<lparr>string = ''1;2/3,4'', total_pull = 7, total_bag = 8,
          groups = [[(1, 1)], [(2, 3), (4, 4)]]\<rparr> \<and>
   SubtaskString_init 4300 ''abc'' = Inl IllegalGroup \<and>
   SubtaskString_init 4300 ''1/2/3'' = Inl IllegalGroup \<and>
   SubtaskString_init 4300 ''-1/2'' = Inl NegativePull \<and>
   SubtaskString_init 4300 ''0/0'' = Inl EmptyBag \<and>
   SubtaskString_init 4300 ''2/1'' = Inl PullExceedsBag \<and>
   SubtaskString_init 4300 ''0/0;abc'' = Inl EmptyBag"
  using SubtaskString_init_grammar [of 4300 "''1;2/3,4''"]
    SubtaskString_init_grammar [of 4300 "''abc''"]
    SubtaskString_init_grammar [of 4300 "''1/2/3''"]
    SubtaskString_init_grammar [of 4300 "''-1/2''"]
    SubtaskString_init_grammar [of 4300 "''0/0''"]
    SubtaskString_init_grammar [of 4300 "''2/1''"]
    SubtaskString_init_grammar [of 4300 "''0/0;abc''"]
  by (simp add: spec_eval sum_pull_def sum_bag_def)

text \<open>
  C5. After a successful parse, \<open>total_bag\<close> is the sum of the declared bags and
  \<open>total_pull\<close> the sum of the declared pulls. The constructor of
  \<^verbatim>\<open>MultifillProblem\<close>, once it has a list of subtasks that all have a text and a
  subtask string that parses, fails with the mismatch error whenever \<open>total_bag\<close>
  differs from the number of subtasks; a problem it returns has the two equal.
\<close>

theorem totals_and_mismatch:
  "(SubtaskString_init lim s = Inr self \<longrightarrow>
      spec_parse lim s = Inr (groups self) \<and>
      total_bag self = sum_bag (groups self) \<and>
      total_pull self = sum_pull (groups self)) \<and>
   (base problemid c = None \<and> c_subtasks c = Some sts \<and> check_texts 0 sts = None \<and>
    choose_subtask_string lim c sts = Inr ss \<and> total_bag ss \<noteq> int (length sts) \<longrightarrow>
      MultifillProblem_init base lim problemid c =
        Inl (BagMismatch (length sts) (total_bag ss))) \<and>
   (MultifillProblem_init base lim problemid c = Inr p \<longrightarrow>
      total_bag (subtask_string p) = int (length (subtasks p)))"
  using init_Inr_fields(2,3,5) [of lim s self]
    MultifillProblem_init_mismatch [of base problemid c sts lim ss]
    MultifillProblem_init_Inr(4) [of base lim problemid c p]
  by blast

theorem totals_and_mismatch_witness:
  "SubtaskString_init 4300 ''1;1/2,1'' =
     Inr \<lparr>string = ''1;1/2,1'', total_pull = 3, total_bag = 4,
          groups = [[(1, 1)], [(1, 2), (1, 1)]]\<rparr> \<and>
   sum_bag [[(1, 1)], [(1, 2), (1, 1)]] = 4 \<and> sum_pull [[(1, 1)], [(1, 2), (1, 1)]] = 3 \<and>
   MultifillProblem_init (\<lambda>problemid c. None) 4300 ''q1''
     \<lparr>c_header = None,
      c_subtasks = Some [\<lparr>subtask_text = Some ''a''\<rparr>, \<lparr>subtask_text = Some ''b''\<rparr>,
                         \<lparr>subtask_text = Some ''c''\<rparr>],
      c_subtask_string = Some ''1;1/2,1'', c_score_string = None\<rparr> =
     Inl (BagMismatch 3 4)"
proof -
  let ?c = "\<lparr>c_header = None,
      c_subtasks = Some [\<lparr>subtask_text = Some ''a''\<rparr>, \<lparr>subtask_text = Some ''b''\<rparr>,
                         \<lparr>subtask_text = Some ''c''\<rparr>],
      c_subtask_string = Some ''1;1/2,1'', c_score_string = None\<rparr>"
  let ?sts = "[\<lparr>subtask_text = Some ''a''\<rparr>, \<lparr>subtask_text = Some ''b''\<rparr>,
                         \<lparr>subtask_text = Some ''c''\<rparr>]"
  let ?ss = "\<lparr>string = ''1;1/2,1'', total_pull = 3, total_bag = 4,
          groups = [[(1, 1)], [(1, 2), (1, 1)]]\<rparr>"
  have ch: "choose_subtask_string 4300 ?c ?sts = Inr ?ss"
    by (simp add: choose_subtask_string_def dict_get_def dict_index_def py_strip_def
        strip_space_def init_1_12_1)
  from totals_and_mismatch [where lim = 4300 and s = "''1;1/2,1''" and self = ?ss
      and base = "\<lambda>problemid c. None" and problemid = "''q1''" and c = ?c and sts = ?sts
      and ss = ?ss] ch init_1_12_1 [of 4300]
  show ?thesis by simp
qed

text \<open>
  C6. For five subtasks, the default \<^verbatim>\<open>SubtaskString\<close> is the one parsed from
  \<^verbatim>\<open>1;1;1;1;1\<close>: five segments of one group \<open>(1, 1)\<close>, both totals 5, and sampling
  returns the indices 0 to 4 in order whatever the seed. The default
  \<^verbatim>\<open>ScoreString\<close> is the one parsed from \<^verbatim>\<open>0/5/5\<close>: minimum 0, expected 5, total 5.
\<close>

theorem default_for_five_subtasks:
  assumes "length sts = 5"
  shows "SubtaskString_default_for_subtasks lim sts =
           SubtaskString_init lim ''1;1;1;1;1'' \<and>
         SubtaskString_init lim ''1;1;1;1;1'' =
           Inr \<lparr>string = ''1;1;1;1;1'', total_pull = 5, total_bag = 5,
                groups = [[(1, 1)], [(1, 1)], [(1, 1)], [(1, 1)], [(1, 1)]]\<rparr> \<and>
         (sample_ok R \<and> shuffle_ok R \<longrightarrow>
            sample_subtasks R
              \<lparr>string = ''1;1;1;1;1'', total_pull = 5, total_bag = 5,
               groups = [[(1, 1)], [(1, 1)], [(1, 1)], [(1, 1)], [(1, 1)]]\<rparr>
              task_id seed = Inr [0, 1, 2, 3, 4]) \<and>
         ScoreString_default_for_subtasks lim sts = ScoreString_init lim ''0/5/5'' \<and>
         ScoreString_init lim ''0/5/5'' =
           Inr \<lparr>score_text = ''0/5/5'', minimum = 0, expected = 5, total = 5\<rparr>"
proof -
  have a: "SubtaskString_default_for_subtasks lim sts =
      SubtaskString_init lim ''1;1;1;1;1''"
    using assms by (simp add: SubtaskString_default_for_subtasks_def join_5)
  have b: "ScoreString_default_for_subtasks lim sts = ScoreString_init lim ''0/5/5''"
    using assms by (simp add: ScoreString_default_for_subtasks_def py_str_5)
  from a b init_five [of lim] score_055 [of lim] sample_five [of R task_id seed]
  show ?thesis by blast
qed

theorem default_for_five_subtasks_witness:
  "length [''a'', ''b'', ''c'', ''d'', ''e''] = 5 \<and>
   SubtaskString_default_for_subtasks 4300 [''a'', ''b'', ''c'', ''d'', ''e''] =
     Inr \<lparr>string = ''1;1;1;1;1'', total_pull = 5, total_bag = 5,
          groups = [[(1, 1)], [(1, 1)], [(1, 1)], [(1, 1)], [(1, 1)]]\<rparr> \<and>
   sample_subtasks LCG
     \<lparr>string = ''1;1;1;1;1'', total_pull = 5, total_bag = 5,
      groups = [[(1, 1)], [(1, 1)], [(1, 1)], [(1, 1)], [(1, 1)]]\<rparr>
     ''task'' ''alice'' = Inr [0, 1, 2, 3, 4] \<and>
   ScoreString_default_for_subtasks 4300 [''a'', ''b'', ''c'', ''d'', ''e''] =
     Inr \<lparr>score_text = ''0/5/5'', minimum = 0, expected = 5, total = 5\<rparr>"
proof -
  have len: "length [''a'', ''b'', ''c'', ''d'', ''e''] = 5" by simp
  from default_for_five_subtasks [OF len, where lim = 4300 and R = LCG
      and task_id = "''task''" and seed = "''alice''"]
    LCG_sample_ok LCG_shuffle_ok len
  show ?thesis by simp
qed

text \<open>
  C7. The constructor of \<^verbatim>\<open>ScoreString\<close> checks in this order: a string that does not
  split into three fields at the slashes fails with the wrong-arity error; with three
  fields, one that is not an integer fails with the non-integer error; with three
  integers, a minimum below 0 or above the total fails with the minimum error; with the
  minimum in range, an expected score below 0 or above the total fails with the
  expected-score error; otherwise the constructor returns the three numbers. So
  \<^verbatim>\<open>6/3/5\<close> and \<^verbatim>\<open>1/6/5\<close> fail and \<^verbatim>\<open>0/5/5\<close> gives \<open>(0, 5, 5)\<close>.
\<close>

theorem ScoreString_init_errors:
  "(length (split_on (CHR ''/'') s) \<noteq> 3 \<longrightarrow> ScoreString_init lim s = Inl WrongParts) \<and>
   (split_on (CHR ''/'') s = [a, b, c] \<longrightarrow>
      ((py_int lim a = None \<or> py_int lim b = None \<or> py_int lim c = None) \<longrightarrow>
          ScoreString_init lim s = Inl IllegalScore) \<and>
      (py_int lim a = Some mi \<and> py_int lim b = Some ex \<and> py_int lim c = Some to \<longrightarrow>
         ((mi < 0 \<or> mi > to) \<longrightarrow> ScoreString_init lim s = Inl MinimumRange) \<and>
         (0 \<le> mi \<and> mi \<le> to \<and> (ex < 0 \<or> ex > to) \<longrightarrow>
             ScoreString_init lim s = Inl ExpectedRange) \<and>
         (0 \<le> mi \<and> mi \<le> to \<and> 0 \<le> ex \<and> ex \<le> to \<longrightarrow>
             ScoreString_init lim s =
               Inr \<lparr>score_text = s, minimum = mi, expected = ex, total = to\<rparr>))) \<and>
   ScoreString_init lim ''6/3/5'' = Inl MinimumRange \<and>
   ScoreString_init lim ''1/6/5'' = Inl ExpectedRange \<and>
   ScoreString_init lim ''0/5/5'' =
     Inr \<lparr>score_text = ''0/5/5'', minimum = 0, expected = 5, total = 5\<rparr>"
  using ScoreString_init_cases [of s lim a b c mi ex to] score_635 [of lim] score_165 [of lim]
    score_055 [of lim]
  by blast

theorem ScoreString_init_errors_witness:
  "ScoreString_init 4300 ''1/2'' = Inl WrongParts \<and>
   ScoreString_init 4300 ''1/x/3'' = Inl IllegalScore \<and>
   ScoreString_init 4300 ''-1/2/3'' = Inl MinimumRange \<and>
   ScoreString_init 4300 ''1/4/3'' = Inl ExpectedRange \<and>
   ScoreString_init 4300 ''2/3/4'' =
     Inr \<lparr>score_text = ''2/3/4'', minimum = 2, expected = 3, total = 4\<rparr> \<and>
   ScoreString_init 4300 ''6/3/5'' = Inl MinimumRange"
proof -
  have i: "py_int 4300 ''1'' = Some 1" "py_int 4300 ''2'' = Some 2" "py_int 4300 ''3'' = Some 3"
    "py_int 4300 ''4'' = Some 4" "py_int 4300 ''-1'' = Some (- 1)" "py_int 4300 ''x'' = None"
    by (simp_all add: int_defs)
  from ScoreString_init_errors [where s = "''1/2''" and lim = 4300]
  have 1: "ScoreString_init 4300 ''1/2'' = Inl WrongParts" by simp
  from ScoreString_init_errors [where s = "''1/x/3''" and a = "''1''" and b = "''x''" and c = "''3''" and lim = 4300] i
  have 2: "ScoreString_init 4300 ''1/x/3'' = Inl IllegalScore" by simp
  from ScoreString_init_errors [where s = "''-1/2/3''" and a = "''-1''" and b = "''2''" and c = "''3''" and lim = 4300 and mi = "- 1" and ex = 2 and to = 3] i
  have 3: "ScoreString_init 4300 ''-1/2/3'' = Inl MinimumRange" by simp
  from ScoreString_init_errors [where s = "''1/4/3''" and a = "''1''" and b = "''4''" and c = "''3''" and lim = 4300 and mi = 1 and ex = 4 and to = 3] i
  have 4: "ScoreString_init 4300 ''1/4/3'' = Inl ExpectedRange" by simp
  from ScoreString_init_errors [where s = "''2/3/4''" and a = "''2''" and b = "''3''" and c = "''4''" and lim = 4300 and mi = 2 and ex = 3 and to = 4] i
  have 5: "ScoreString_init 4300 ''2/3/4'' =
     Inr \<lparr>score_text = ''2/3/4'', minimum = 2, expected = 3, total = 4\<rparr>" by simp
  from ScoreString_init_errors [where s = "''1/2''" and lim = 4300]
  have 6: "ScoreString_init 4300 ''6/3/5'' = Inl MinimumRange" by blast
  from 1 2 3 4 5 6 show ?thesis by blast
qed

text \<open>
  C8. For a specification string the constructor accepts, the loops of
  \<^verbatim>\<open>sample_subtasks\<close> end with the bag counter equal to \<open>total_bag\<close>, whatever the
  generator does: the final assertion holds, \<^verbatim>\<open>Random.sample\<close> is never asked for more
  than its population, and the call returns a result.
\<close>

theorem sample_subtasks_cursor:
  assumes "SubtaskString_init lim s = Inr self"
  shows "\<exists>rand' result.
           sample_loose R (groups self) (rnd_seed R (task_id @ ''#'' @ seed), 0, []) =
             Inr (rand', total_bag self, result) \<and>
           sample_subtasks R self task_id seed = Inr result"
  using sample_subtasks_valid [OF assms, of R task_id seed] by blast

theorem sample_subtasks_cursor_witness:
  "SubtaskString_init 4300 ''1;1/2,1'' =
     Inr \<lparr>string = ''1;1/2,1'', total_pull = 3, total_bag = 4,
          groups = [[(1, 1)], [(1, 2), (1, 1)]]\<rparr> \<and>
   sample_loose LCG [[(1, 1)], [(1, 2), (1, 1)]] (lcg_seed ''task#alice'', 0, []) =
     Inr (1312488709, 4, [0, 3, 1]) \<and>
   (\<exists>rand' result.
      sample_loose LCG [[(1, 1)], [(1, 2), (1, 1)]] (lcg_seed ''task#alice'', 0, []) =
        Inr (rand', 4, result) \<and>
      sample_subtasks LCG
        \<lparr>string = ''1;1/2,1'', total_pull = 3, total_bag = 4,
         groups = [[(1, 1)], [(1, 2), (1, 1)]]\<rparr> ''task'' ''alice'' = Inr result)"
  using sample_subtasks_cursor [OF init_1_12_1 [of 4300],
      where R = LCG and task_id = "''task''" and seed = "''alice''"]
    init_1_12_1 [of 4300] lcg_loops_task_alice
  by (simp add: LCG_def del: sample_loose.simps)

text \<open>
  C9. The constructor of \<^verbatim>\<open>ScoreString\<close> never raises "Total score can not be
  negative": with three integer fields and a negative total, the check of the minimum
  fails first, since a minimum that is not negative is larger than the total.
\<close>

theorem ScoreString_negative_total_unreachable:
  "ScoreString_init lim s \<noteq> Inl NegativeTotal \<and>
   (split_on (CHR ''/'') s = [a, b, c] \<and> py_int lim a = Some mi \<and>
    py_int lim b = Some ex \<and> py_int lim c = Some to \<and> to < 0 \<longrightarrow>
      ScoreString_init lim s = Inl MinimumRange)"
  using ScoreString_never_NegativeTotal [of lim s]
    ScoreString_negative_total [of s a b c lim mi ex to]
  by blast

theorem ScoreString_negative_total_unreachable_witness:
  "split_on (CHR ''/'') ''0/0/-1'' = [''0'', ''0'', ''-1''] \<and>
   py_int 4300 ''0'' = Some 0 \<and> py_int 4300 ''-1'' = Some (- 1) \<and>
   ScoreString_init 4300 ''0/0/-1'' = Inl MinimumRange \<and>
   ScoreString_init 4300 ''0/0/-1'' \<noteq> Inl NegativeTotal"
proof -
  have sp: "split_on (CHR ''/'') ''0/0/-1'' = [''0'', ''0'', ''-1'']" by simp
  have z: "py_int 4300 ''0'' = Some 0" by (simp add: int_defs)
  have m: "py_int 4300 ''-1'' = Some (- 1)" by (simp add: int_defs)
  from ScoreString_negative_total_unreachable
    [of 4300 "''0/0/-1''" "''0''" "''0''" "''-1''" 0 0 "- 1"] sp z m
  show ?thesis by simp
qed

text \<open>
  C10. The constructor of \<^verbatim>\<open>SubtaskString\<close> fails with the malformed-group error on the
  empty string, and on every string all of whose groups are empty. The default
  specification comes from the constructor of \<^verbatim>\<open>MultifillProblem\<close> only: it builds the
  default when the content has no subtask string, or one that strips to the empty
  string, which is the case exactly when every character of it is white space; any
  other string goes to the parser as it is stored.
\<close>

theorem empty_string_and_default:
  "SubtaskString_init lim [] = Inl IllegalGroup \<and>
   ((\<forall>tok\<in>set (spec_tokens s). tok = []) \<longrightarrow> SubtaskString_init lim s = Inl IllegalGroup) \<and>
   (c_subtask_string c = None \<longrightarrow>
      choose_subtask_string lim c sts = SubtaskString_default_for_subtasks lim sts) \<and>
   (c_subtask_string c = Some t \<longrightarrow>
      (py_strip t = [] \<longleftrightarrow> (\<forall>ch\<in>set t. strip_space ch)) \<and>
      choose_subtask_string lim c sts =
        (if py_strip t = [] then SubtaskString_default_for_subtasks lim sts
         else SubtaskString_init lim t)) \<and>
   (MultifillProblem_init base lim problemid c = Inr p \<longrightarrow>
      choose_subtask_string lim c (subtasks p) = Inr (subtask_string p))"
proof -
  have "spec_tokens [] = [[]]" by (simp add: spec_tokens_def)
  then have "SubtaskString_init lim [] = Inl IllegalGroup"
    by (intro init_empty_tokens) simp
  with init_empty_tokens [of s lim] choose_subtask_string_None [of c lim sts]
    choose_subtask_string_Some [of c t lim sts] py_strip_Nil [of t]
    MultifillProblem_init_Inr(2) [of base lim problemid c p]
  show ?thesis by simp
qed

theorem empty_string_and_default_witness:
  "SubtaskString_init 4300 '''' = Inl IllegalGroup \<and>
   spec_tokens '';,'' = ['''', '''', ''''] \<and>
   SubtaskString_init 4300 '';,'' = Inl IllegalGroup \<and>
   py_strip [CHR '' '', CHR 0x09, CHR 0x0A] = [] \<and>
   choose_subtask_string 4300
     \<lparr>c_header = None, c_subtasks = Some [\<lparr>subtask_text = Some ''a''\<rparr>],
      c_subtask_string = Some [CHR '' '', CHR 0x09, CHR 0x0A], c_score_string = None\<rparr>
     [\<lparr>subtask_text = Some ''a''\<rparr>] =
     SubtaskString_default_for_subtasks 4300 [\<lparr>subtask_text = Some ''a''\<rparr>] \<and>
   choose_subtask_string 4300
     \<lparr>c_header = None, c_subtasks = Some [\<lparr>subtask_text = Some ''a''\<rparr>],
      c_subtask_string = Some '' 1 '', c_score_string = None\<rparr>
     [\<lparr>subtask_text = Some ''a''\<rparr>] =
     SubtaskString_init 4300 '' 1 ''"
proof -
  let ?sts = "[\<lparr>subtask_text = Some ''a''\<rparr>]"
  let ?c1 = "\<lparr>c_header = None, c_subtasks = Some ?sts,
      c_subtask_string = Some [CHR '' '', CHR 0x09, CHR 0x0A], c_score_string = None\<rparr>"
  let ?c2 = "\<lparr>c_header = None, c_subtasks = Some ?sts,
      c_subtask_string = Some '' 1 '', c_score_string = None\<rparr>"
  have tk: "spec_tokens '';,'' = ['''', '''', '''']" by (simp add: spec_tokens_def)
  have ws: "py_strip [CHR '' '', CHR 0x09, CHR 0x0A] = []"
    by (simp add: py_strip_def strip_space_def)
  have nws: "py_strip '' 1 '' \<noteq> []" by (simp add: py_strip_def strip_space_def)
  from empty_string_and_default [where lim = 4300 and s = "'';,''" and c = ?c1
      and t = "[CHR '' '', CHR 0x09, CHR 0x0A]" and sts = ?sts] tk ws
  have a: "SubtaskString_init 4300 '''' = Inl IllegalGroup"
    "SubtaskString_init 4300 '';,'' = Inl IllegalGroup"
    "choose_subtask_string 4300 ?c1 ?sts = SubtaskString_default_for_subtasks 4300 ?sts"
    by simp_all
  from empty_string_and_default [where lim = 4300 and c = ?c2 and t = "'' 1 ''"
      and sts = ?sts] nws
  have b: "choose_subtask_string 4300 ?c2 ?sts = SubtaskString_init 4300 '' 1 ''"
    by simp
  from a b tk ws show ?thesis by simp
qed

end
